theory Spec2Isabelle
  imports Main
begin

section \<open>Preflight checks of tvk-plugins: a shallow embedding\<close>

text \<open>
  The theory follows \<^verbatim>\<open>tools/preflight/preflight.go\<close> and
  \<^verbatim>\<open>cmd/preflight/cmd/run.go\<close>. Every call that leaves the process (the API
  server, the discovery client, \<^verbatim>\<open>$PATH\<close> lookup, the random source) is a field of
  an environment record holding the answer the collaborator gives; a Go function that
  returns \<^verbatim>\<open>error\<close> returns \<open>error option\<close> here (\<open>None\<close> is \<^verbatim>\<open>nil\<close>), one
  that returns a value and an error returns \<open>error + 'a\<close>.
\<close>

subsection \<open>Errors\<close>

text \<open>
  \<open>Errorf\<close> is an error built by \<^verbatim>\<open>fmt.Errorf\<close> in this package, carrying its
  formatted message. The other constructors are errors handed back by collaborators:
  \<open>StatusNotFound\<close> is one for which \<^verbatim>\<open>k8serrors.IsNotFound\<close> holds,
  \<open>GroupDiscoveryFailed\<close> one for which \<^verbatim>\<open>discovery.IsGroupDiscoveryFailedError\<close>
  holds, \<open>Failure\<close> any other. \<open>Panic\<close> is a run-time panic of the Go program
  (index out of range, a non-positive bound given to \<^verbatim>\<open>rand.Int\<close>).
\<close>

datatype error =
    Errorf string
  | StatusNotFound string
  | GroupDiscoveryFailed string
  | Failure string
  | Panic string

fun Error :: "error \<Rightarrow> string" where
  "Error (Errorf m) = m"
| "Error (StatusNotFound m) = m"
| "Error (GroupDiscoveryFailed m) = m"
| "Error (Failure m) = m"
| "Error (Panic m) = m"

fun IsNotFound :: "error \<Rightarrow> bool" where
  "IsNotFound (StatusNotFound m) = True"
| "IsNotFound e = False"

fun IsGroupDiscoveryFailedError :: "error \<Rightarrow> bool" where
  "IsGroupDiscoveryFailedError (GroupDiscoveryFailed m) = True"
| "IsGroupDiscoveryFailedError e = False"

subsection \<open>Resource name suffix\<close>

text \<open>
  \<^verbatim>\<open>rand.Reader\<close> is the sequence of its answers: \<open>rd j\<close> is what the \<open>j\<close>-th call
  of \<^verbatim>\<open>io.ReadFull(rand, bytes)\<close> yields, a failure of the source or the bytes filled
  in, given as the big-endian number they spell.

  \<^verbatim>\<open>rand.Int(rand.Reader, max)\<close> of \<^verbatim>\<open>crypto/rand\<close> panics when \<open>max \<le> 0\<close>. With
  \<open>bitLen\<close> the bit length of \<open>max - 1\<close>, it returns 0 without reading when \<open>bitLen\<close> is
  0 (that is, \<open>max = 1\<close>). Otherwise it reads \<open>k = (bitLen + 7) / 8\<close> bytes, clears all
  but the \<open>b\<close> low bits of the first byte (\<open>b = bitLen % 8\<close>, or 8 when that is 0),
  takes the bytes as a big-endian number, and returns it if it is below \<open>max\<close>; if not,
  it reads again, any number of times. The loop need not end: the function is partial,
  and \<open>None\<close> is a call that does not return. A call returns its result and the position
  of the source after it.
\<close>

type_synonym reader = "nat \<Rightarrow> error + nat"

fun bitLen :: "nat \<Rightarrow> nat" where
  "bitLen n = (if n = 0 then 0 else Suc (bitLen (n div 2)))"

declare bitLen.simps [simp del]

definition candidate :: "nat \<Rightarrow> nat \<Rightarrow> nat" where
  "candidate max_n r =
     (let bl = bitLen (max_n - 1);
          k = (bl + 7) div 8;
          b = (if bl mod 8 = 0 then 8 else bl mod 8);
          bytes = r mod 256 ^ k;
          first = bytes div 256 ^ (k - 1);
          rest = bytes mod 256 ^ (k - 1)
      in (first mod 2 ^ b) * 256 ^ (k - 1) + rest)"

partial_function (option) rand_Int_loop ::
  "reader \<Rightarrow> nat \<Rightarrow> nat \<Rightarrow> ((error + nat) \<times> nat) option" where
  "rand_Int_loop rd max_n j =
     (case rd j of
        Inl err \<Rightarrow> Some (Inl err, Suc j)
      | Inr r \<Rightarrow>
          if candidate max_n r < max_n then Some (Inr (candidate max_n r), Suc j)
          else rand_Int_loop rd max_n (Suc j))"

declare rand_Int_loop.simps [code]

definition rand_Int :: "reader \<Rightarrow> nat \<Rightarrow> nat \<Rightarrow> ((error + nat) \<times> nat) option" where
  "rand_Int rd max_n j =
     (if max_n = 0 then Some (Inl (Panic ''crypto/rand: argument to Int is <= 0''), j)
      else if bitLen (max_n - 1) = 0 then Some (Inr 0, j)
      else rand_Int_loop rd max_n j)"

text \<open>
  The loop \<^verbatim>\<open>for i := range suffix\<close>: iteration \<open>i\<close> calls \<^verbatim>\<open>rand.Int\<close> at the
  position the source has reached and stores \<^verbatim>\<open>letterBytes[idx]\<close> at position \<open>i\<close>.
  The alphabet \<^verbatim>\<open>letterBytes\<close> is a constant declared elsewhere in the package and
  is a parameter. \<open>CreateResourceNameSuffix\<close> gives what the function returns and the
  number of reads it has made, or \<open>None\<close> when it does not return.
\<close>

function suffix_loop ::
  "string \<Rightarrow> reader \<Rightarrow> nat \<Rightarrow> string \<Rightarrow> nat \<Rightarrow> ((error + string) \<times> nat) option" where
  "suffix_loop letterBytes rd i suffix j =
     (if i < length suffix then
        (case rand_Int rd (length letterBytes) j of
           None \<Rightarrow> None
         | Some (Inl err, j') \<Rightarrow> Some (Inl err, j')
         | Some (Inr idx, j') \<Rightarrow>
             if idx < length letterBytes
             then suffix_loop letterBytes rd (Suc i) (suffix[i := letterBytes ! idx]) j'
             else Some (Inl (Panic ''index out of range''), j'))
      else Some (Inr suffix, j))"
  by pat_completeness auto
termination
  by (relation "measure (\<lambda>(letterBytes, rd, i, suffix, j). length suffix - i)") auto

definition CreateResourceNameSuffix ::
  "string \<Rightarrow> reader \<Rightarrow> ((error + string) \<times> nat) option" where
  "CreateResourceNameSuffix letterBytes rd =
     suffix_loop letterBytes rd 0 (replicate 6 (CHR 0x00)) 0"

subsection \<open>Logging\<close>

text \<open>
  A call of the logger is recorded as its level, its format string and its arguments.
  The marks \<^verbatim>\<open>check\<close> and \<^verbatim>\<open>cross\<close> are constants declared elsewhere in the
  package; they are kept symbolic (\<open>Check\<close>, \<open>Cross\<close>), as is a package constant passed
  as an argument (\<open>Konst\<close>, by its name). \<^verbatim>\<open>Infoln\<close>, \<^verbatim>\<open>Warnln\<close> take a
  message and no arguments.
\<close>

datatype level = InfoLevel | WarnLevel | ErrorLevel

datatype farg = Check | Cross | Str string | Konst string

datatype logline = Logf level string "farg list"

subsection \<open>Helm\<close>

text \<open>
  What the host and the cluster answer to the Helm check. \<open>CheckIsOpenshift\<close> is the
  verdict of \<^verbatim>\<open>internal.CheckIsOpenshift(discClient, internal.OcpAPIVersion)\<close>,
  \<open>LookPath\<close> is \<^verbatim>\<open>os/exec.LookPath\<close>, \<open>GetHelmVersion\<close> the package's helper of
  that name; \<open>NewVersion\<close> and \<open>LessThan\<close> are the version library, over any type of
  parsed versions. \<^verbatim>\<open>HelmBinaryName\<close> and \<^verbatim>\<open>MinHelmVersion\<close> are package constants.
\<close>

record 'v helm_env =
  CheckIsOpenshift :: bool
  LookPath :: "string \<Rightarrow> error + string"
  GetHelmVersion :: "string \<Rightarrow> error + string"
  NewVersion :: "string \<Rightarrow> error + 'v"
  LessThan :: "'v \<Rightarrow> 'v \<Rightarrow> bool"
  HelmBinaryName :: string
  MinHelmVersion :: string

definition quoted :: "string \<Rightarrow> string" where
  "quoted s = CHR 0x27 # s @ [CHR 0x27]"

definition validateHelmBinary :: "'v helm_env \<Rightarrow> string \<Rightarrow> error option" where
  "validateHelmBinary env binaryName =
     (if CheckIsOpenshift env then None
      else case LookPath env binaryName of
             Inl err \<Rightarrow> Some (Errorf (''error finding '' @ quoted binaryName @
                                       '' binary in $PATH of the system :: '' @ Error err))
           | Inr path \<Rightarrow> None)"

definition validateHelmVersion :: "'v helm_env \<Rightarrow> string \<Rightarrow> error option" where
  "validateHelmVersion env curVersion =
     (case GetHelmVersion env (HelmBinaryName env) of
        Inl err \<Rightarrow> Some err
      | Inr helmVersion \<Rightarrow>
          (case NewVersion env (MinHelmVersion env) of
             Inl err \<Rightarrow> Some err
           | Inr v1 \<Rightarrow>
               (case NewVersion env curVersion of
                  Inl err \<Rightarrow> Some err
                | Inr v2 \<Rightarrow>
                    if LessThan env v2 v1
                    then Some (Errorf (''helm does not meet minimum version requirement.\<newline>'' @
                                       ''Upgrade helm to minimum version - '' @ MinHelmVersion env))
                    else None)))"

definition checkHelmVersion :: "'v helm_env \<Rightarrow> string \<Rightarrow> error option" where
  "checkHelmVersion env binaryName =
     (case validateHelmBinary env binaryName of
        Some err \<Rightarrow> Some err
      | None \<Rightarrow>
          (case GetHelmVersion env (HelmBinaryName env) of
             Inl err \<Rightarrow> Some err
           | Inr curVersion \<Rightarrow> validateHelmVersion env curVersion))"

subsection \<open>RBAC\<close>

text \<open>
  Of a discovered API group only the group-version strings of its versions are read.
  \<open>ServerGroups\<close> is the pair \<^verbatim>\<open>discClient.ServerGroups()\<close> returns; the list is a
  pointer and may be \<^verbatim>\<open>nil\<close> (\<open>None\<close>).
\<close>

record APIGroup =
  Name :: string
  Versions :: "string list"

type_synonym APIGroupList = "APIGroup list"

definition ExtractGroupVersions :: "APIGroupList \<Rightarrow> string list" where
  "ExtractGroupVersions l = concat (map Versions l)"

record GroupVersion =
  Group :: string
  Version :: string

text \<open>
  \<^verbatim>\<open>schema.ParseGroupVersion\<close> of the API machinery: the empty string and \<^verbatim>\<open>"/"\<close>
  give the empty group-version, a string without a slash is a version of the core group,
  one slash separates group and version, more slashes are an error.
\<close>

definition ParseGroupVersion :: "string \<Rightarrow> error + GroupVersion" where
  "ParseGroupVersion gv =
     (if gv = [] \<or> gv = ''/'' then Inr \<lparr>Group = [], Version = []\<rparr>
      else if count_list gv (CHR ''/'') = 0 then Inr \<lparr>Group = [], Version = gv\<rparr>
      else if count_list gv (CHR ''/'') = 1
      then Inr \<lparr>Group = takeWhile (\<lambda>c. c \<noteq> CHR ''/'') gv,
                Version = drop 1 (dropWhile (\<lambda>c. c \<noteq> CHR ''/'') gv)\<rparr>
      else Inl (Errorf (''unexpected GroupVersion string: '' @ gv)))"

text \<open>
  The loop over \<^verbatim>\<open>apiVersions\<close>. \<open>Inl r\<close>: the function returned \<open>r\<close> from inside
  the loop; \<open>Inr found\<close>: the loop ended (at its end or by \<^verbatim>\<open>break\<close>) with the flag.
\<close>

fun rbac_loop :: "string \<Rightarrow> string \<Rightarrow> string list \<Rightarrow> error option + bool" where
  "rbac_loop apiGroup apiVersion [] = Inr False"
| "rbac_loop apiGroup apiVersion (apiver # rest) =
     (case ParseGroupVersion apiver of
        Inl err \<Rightarrow> Inl None
      | Inr gv \<Rightarrow>
          if Group gv = apiGroup \<and> Version gv = apiVersion then Inr True
          else rbac_loop apiGroup apiVersion rest)"

definition checkKubernetesRBAC ::
  "(APIGroupList option \<times> error option) \<Rightarrow> string \<Rightarrow> string \<Rightarrow> error option" where
  "checkKubernetesRBAC ServerGroups apiGroup apiVersion =
     (let (groupList, err) = ServerGroups in
      if (case err of None \<Rightarrow> False | Some e \<Rightarrow> \<not> IsGroupDiscoveryFailedError e) then err
      else
        (case groupList of
           None \<Rightarrow> Some (Panic ''nil pointer dereference'')
         | Some l \<Rightarrow>
             (case rbac_loop apiGroup apiVersion (ExtractGroupVersions l) of
                Inl r \<Rightarrow> r
              | Inr found \<Rightarrow>
                  if \<not> found then Some (Errorf ''not enabled kubernetes RBAC'') else None)))"

subsection \<open>Unstructured objects and the cluster\<close>

text \<open>
  The content of an \<^verbatim>\<open>unstructured.Unstructured\<close> is its \<^verbatim>\<open>Object\<close>, a map from
  field names to values; a value is a string, a nested map, or something else.
  \<^verbatim>\<open>Object["driver"] == provisioner\<close> compares an interface value with a string and
  holds when the field is present, is a string, and is that string.
  \<^verbatim>\<open>GetName\<close> reads the nested field \<^verbatim>\<open>metadata.name\<close> and gives the empty
  string when it is absent or not a string.
\<close>

datatype jvalue = JString string | JObject "(string \<times> jvalue) list" | JOther

type_synonym unstructured = "(string \<times> jvalue) list"

definition GetName :: "unstructured \<Rightarrow> string" where
  "GetName u =
     (case map_of u ''metadata'' of
        Some (JObject m) \<Rightarrow> (case map_of m ''name'' of Some (JString n) \<Rightarrow> n | _ \<Rightarrow> [])
      | _ \<Rightarrow> [])"

record storage_class =
  Provisioner :: string

text \<open>
  The answers of the cluster. \<open>GetServerPreferredVersionForGroup\<close> and
  \<open>clusterHasVolumeSnapshotClass\<close> are helpers defined elsewhere in the package; \<open>runtimeClient_List\<close> and \<open>runtimeClient_Get\<close> take the group, version
  and kind set on the object they fill; \<open>StorageClasses_Get\<close> is
  \<^verbatim>\<open>clientSet.StorageV1().StorageClasses().Get\<close>. The first five fields are constants of
  the package.
\<close>

type_synonym gvk = "string \<times> string \<times> string"

record cluster =
  StorageSnapshotGroup :: string
  VolumeSnapshotClassKind :: string
  apiExtenstionsGroup :: string
  customResourceDefinition :: string
  CsiApis :: "string list"
  GetServerPreferredVersionForGroup :: "string \<Rightarrow> error + string"
  runtimeClient_List :: "gvk \<Rightarrow> error + unstructured list"
  runtimeClient_Get :: "gvk \<Rightarrow> string \<Rightarrow> error option"
  StorageClasses_Get :: "string \<Rightarrow> error + storage_class"
  clusterHasVolumeSnapshotClass :: "string \<Rightarrow> error + unstructured"

subsection \<open>Storage class and snapshot class\<close>

text \<open>
  The loop over \<^verbatim>\<open>vsscList.Items\<close>, with the variable \<^verbatim>\<open>sscName\<close>. \<open>Inl n\<close>: the
  function returned \<open>n\<close> from inside the loop; \<open>Inr n\<close>: the loop ended with
  \<^verbatim>\<open>sscName\<close> equal to \<open>n\<close>.
\<close>

fun vssc_loop :: "string \<Rightarrow> unstructured list \<Rightarrow> string \<Rightarrow> string + string" where
  "vssc_loop provisioner [] sscName = Inr sscName"
| "vssc_loop provisioner (vssc # rest) sscName =
     (if map_of vssc ''driver'' = Some (JString provisioner) then
        if map_of vssc ''snapshot.storage.kubernetes.io/is-default-class'' = Some (JString ''true'')
        then Inl (GetName vssc)
        else vssc_loop provisioner rest (GetName vssc)
      else vssc_loop provisioner rest sscName)"

definition checkSnapshotclassForProvisioner :: "cluster \<Rightarrow> string \<Rightarrow> error + string" where
  "checkSnapshotclassForProvisioner c provisioner =
     (case GetServerPreferredVersionForGroup c (StorageSnapshotGroup c) of
        Inl err \<Rightarrow> Inl err
      | Inr prefVersion \<Rightarrow>
          (case runtimeClient_List c (StorageSnapshotGroup c, prefVersion, VolumeSnapshotClassKind c) of
             Inl err \<Rightarrow> Inl err
           | Inr Items \<Rightarrow>
               if length Items = 0
               then Inl (Errorf (''no volume snapshot class for APIVersion - '' @
                                 StorageSnapshotGroup c @ ''/'' @ prefVersion @ '' found on cluster''))
               else
                 (case vssc_loop provisioner Items [] of
                    Inl n \<Rightarrow> Inr n
                  | Inr sscName \<Rightarrow>
                      if sscName = []
                      then Inl (Errorf (''no matching volume snapshot class having driver '' @
                                        ''same as provisioner - '' @ provisioner @ '' found on cluster''))
                      else Inr sscName)))"

text \<open>
  The options of a run that the checks read (\<^verbatim>\<open>RunOptions\<close>; the resource
  requirements, the storage request and the scheduling options of the test pods are not
  read by the functions below).
\<close>

record RunOptions =
  StorageClass :: string
  SnapshotClass :: string
  LocalRegistry :: string
  ImagePullSecret :: string
  ServiceAccountName :: string
  PerformCleanupOnFail :: bool

text \<open>
  \<^verbatim>\<open>checkStorageSnapshotClass\<close> assigns the package variable
  \<^verbatim>\<open>storageVolSnapClass\<close>: the function takes its value and returns the new one
  beside the error.
\<close>

definition checkStorageSnapshotClass ::
  "cluster \<Rightarrow> RunOptions \<Rightarrow> string \<Rightarrow> error option \<times> string" where
  "checkStorageSnapshotClass c o_run storageVolSnapClass =
     (case StorageClasses_Get c (StorageClass o_run) of
        Inl err \<Rightarrow>
          if IsNotFound err
          then (Some (Errorf (''not found storageclass - '' @ StorageClass o_run @ '' on cluster'')),
                storageVolSnapClass)
          else (Some err, storageVolSnapClass)
      | Inr sc \<Rightarrow>
          (let provisioner = Provisioner sc in
           if SnapshotClass o_run = [] then
             (case checkSnapshotclassForProvisioner c provisioner of
                Inl err \<Rightarrow> (Some err, [])
              | Inr n \<Rightarrow> (None, n))
           else
             (case clusterHasVolumeSnapshotClass c (SnapshotClass o_run) of
                Inl err \<Rightarrow> (Some err, SnapshotClass o_run)
              | Inr vssc \<Rightarrow>
                  if map_of vssc ''driver'' = Some (JString provisioner)
                  then (None, SnapshotClass o_run)
                  else (Some (Errorf (''volume snapshot class - '' @ SnapshotClass o_run @
                          '' driver does not match with given StorageClass's provisioner='' @
                          provisioner)),
                        SnapshotClass o_run))))"

subsection \<open>CSI\<close>

text \<open>
  \<^verbatim>\<open>k8serrors.IsNotFound(err)\<close> where \<^verbatim>\<open>err\<close> may be \<^verbatim>\<open>nil\<close>.
\<close>

definition IsNotFound_opt :: "error option \<Rightarrow> bool" where
  "IsNotFound_opt err = (case err of None \<Rightarrow> False | Some e \<Rightarrow> IsNotFound e)"

text \<open>
  The loop over \<^verbatim>\<open>CsiApis\<close>, with the counter \<^verbatim>\<open>apiFoundCnt\<close> and the lines
  logged so far. \<open>Inl err\<close>: the function returned \<open>err\<close> from inside the loop;
  \<open>Inr n\<close>: the loop ended with the counter at \<open>n\<close>.
\<close>

fun csi_loop ::
  "cluster \<Rightarrow> gvk \<Rightarrow> string list \<Rightarrow> nat \<Rightarrow> logline list \<Rightarrow> (error + nat) \<times> logline list" where
  "csi_loop c u [] apiFoundCnt lg = (Inr apiFoundCnt, lg)"
| "csi_loop c u (api # rest) apiFoundCnt lg =
     (let err = runtimeClient_Get c u api in
      if err \<noteq> None \<and> \<not> IsNotFound_opt err then (Inl (the err), lg)
      else if IsNotFound_opt err
      then csi_loop c u rest apiFoundCnt
             (lg @ [Logf ErrorLevel ''%s Not found CSI API - %s\<newline>'' [Cross, Str api]])
      else csi_loop c u rest (apiFoundCnt + 1)
             (lg @ [Logf InfoLevel ''%s Found CSI API - %s on cluster\<newline>'' [Check, Str api]]))"

definition checkCSI :: "cluster \<Rightarrow> error option \<times> logline list" where
  "checkCSI c =
     (case GetServerPreferredVersionForGroup c (apiExtenstionsGroup c) of
        Inl err \<Rightarrow> (Some err, [])
      | Inr prefVersion \<Rightarrow>
          (case csi_loop c (apiExtenstionsGroup c, prefVersion, customResourceDefinition c)
                  (CsiApis c) 0 [] of
             (Inl err, lg) \<Rightarrow> (Some err, lg)
           | (Inr apiFoundCnt, lg) \<Rightarrow>
               if apiFoundCnt \<noteq> length (CsiApis c)
               then (Some (Errorf ''some CSI APIs not found in cluster. Check logs for details''), lg)
               else (None, lg)))"

subsection \<open>DNS resolution\<close>

text \<open>
  A pod is known by its name. \<open>createDNSPodSpec\<close> gives the name of the pod built for
  a suffix; the other fields are the answers of the API server and of the package's
  helpers to the calls made on that pod. What the function does to the cluster and to
  the log is the list of its actions, in order. The lines written by
  \<^verbatim>\<open>logPodScheduleStmt\<close>, a helper defined elsewhere in the package, are not
  recorded.
\<close>

record dns_env =
  createDNSPodSpec :: "string \<Rightarrow> string"
  Pods_Create :: "string \<Rightarrow> error option"
  waitUntilPodCondition :: "string \<Rightarrow> error option"
  Pods_Get :: "string \<Rightarrow> error + string"
  execInPod :: "string \<Rightarrow> string list \<Rightarrow> error option"
  deleteK8sResource :: "string \<Rightarrow> error option"

datatype action =
    CreatePod string
  | WaitPodReady string
  | GetPod string
  | ExecCommand string "string list"
  | DeleteResource string
  | Logline logline

definition checkDNSResolution ::
  "dns_env \<Rightarrow> string list \<Rightarrow> string \<Rightarrow> error option \<times> action list" where
  "checkDNSResolution env execCommand podNameSuffix =
     (let pod = createDNSPodSpec env podNameSuffix;
          a1 = [CreatePod pod]
      in case Pods_Create env pod of
           Some err \<Rightarrow> (Some err, a1)
         | None \<Rightarrow>
            (let a2 = a1 @ [Logline (Logf InfoLevel ''Pod %s created in cluster\<newline>'' [Str pod]),
                            Logline (Logf InfoLevel ''Waiting for dns pod to become ready'' []),
                            WaitPodReady pod]
             in case waitUntilPodCondition env pod of
                  Some err \<Rightarrow>
                    (Some err,
                     a2 @ [Logline (Logf ErrorLevel
                             ''DNS pod - %s hasn't reached into ready state'' [Str pod])])
                | None \<Rightarrow>
                   (let a3 = a2 @ [GetPod pod]
                    in case Pods_Get env pod of
                         Inl err \<Rightarrow> (Some err, a3)
                       | Inr pod \<Rightarrow>
                          (let a4 = a3 @ [ExecCommand pod execCommand]
                           in case execInPod env pod execCommand of
                                Some err \<Rightarrow>
                                  (if 1 < length execCommand
                                   then Some (Errorf (''not able to resolve DNS '' @
                                          quoted (execCommand ! 1) @ '' service inside pods''))
                                   else Some (Panic ''index out of range''),
                                   a4)
                              | None \<Rightarrow>
                                 (let a5 = a4 @ [DeleteResource pod]
                                  in case deleteK8sResource env pod of
                                       Some err \<Rightarrow>
                                         (None,
                                          a5 @ [Logline (Logf WarnLevel
                                                  ''Problem occurred deleting DNS pod - '%s' :: %s''
                                                  [Str pod, Str (Error err)])])
                                     | None \<Rightarrow>
                                         (None,
                                          a5 @ [Logline (Logf InfoLevel
                                                  ''Deleted DNS pod - '%s' successfully''
                                                  [Str pod])]))))))"

subsection \<open>The run of all checks\<close>

text \<open>
  \<^verbatim>\<open>PerformPreflightChecks\<close> is modelled over any behaviour of the checks it calls:
  each is a function from the state of the world (host and cluster) to its error and
  the world it leaves. The checks of DNS and of volume snapshots and the cleanup take
  the generated suffix; the checks defined in this theory are put in that form further
  down. The run records, in order, each call it makes, with the error returned,
  and each line it logs. The lines of \<^verbatim>\<open>logPreflightOptions\<close> are not
  recorded. A run whose call of \<^verbatim>\<open>CreateResourceNameSuffix\<close> does not return
  does not return (\<open>None\<close>).
\<close>

datatype check_id =
    Kubectl | ClusterAccess | HelmVersion | KubernetesVersion | KubernetesRBAC
  | StorageSnapshotClassMatch | CSI | DNSResolution | VolumeSnapshot

datatype event =
    Called check_id "error option"
  | CleanupCalled string "error option"
  | Logged logline

record 'w checks =
  run_checkKubectl :: "'w \<Rightarrow> error option \<times> 'w"
  run_checkClusterAccess :: "'w \<Rightarrow> error option \<times> 'w"
  run_checkHelmVersion :: "'w \<Rightarrow> error option \<times> 'w"
  run_checkKubernetesVersion :: "'w \<Rightarrow> error option \<times> 'w"
  run_checkKubernetesRBAC :: "'w \<Rightarrow> error option \<times> 'w"
  run_checkStorageSnapshotClass :: "'w \<Rightarrow> error option \<times> 'w"
  run_checkCSI :: "'w \<Rightarrow> error option \<times> 'w"
  run_checkDNSResolution :: "string \<Rightarrow> 'w \<Rightarrow> error option \<times> 'w"
  run_checkVolumeSnapshot :: "string \<Rightarrow> 'w \<Rightarrow> error option \<times> 'w"
  run_CleanupPreflightResources :: "string \<Rightarrow> 'w \<Rightarrow> error option \<times> 'w"

record 'w pstate =
  world :: 'w
  events :: "event list"
  preflightStatus :: bool
  storageSnapshotSuccess :: bool

definition logf :: "level \<Rightarrow> string \<Rightarrow> farg list \<Rightarrow> 'w pstate \<Rightarrow> 'w pstate" where
  "logf lv fmt args s = s\<lparr>events := events s @ [Logged (Logf lv fmt args)]\<rparr>"

definition invoke ::
  "check_id \<Rightarrow> ('w \<Rightarrow> error option \<times> 'w) \<Rightarrow> 'w pstate \<Rightarrow> error option \<times> 'w pstate" where
  "invoke c f s =
     (let (err, w) = f (world s)
      in (err, s\<lparr>world := w, events := events s @ [Called c err]\<rparr>))"

definition kubectl_step :: "'w checks \<Rightarrow> 'w pstate \<Rightarrow> 'w pstate" where
  "kubectl_step ck s0 =
     (let s1 = logf InfoLevel ''Checking for kubectl'' [] s0;
          (err, s2) = invoke Kubectl (run_checkKubectl ck) s1
      in case err of
           Some e \<Rightarrow>
             (logf ErrorLevel ''%s Preflight check for kubectl utility failed :: %s\<newline>''
                [Cross, Str (Error e)] s2)\<lparr>preflightStatus := False\<rparr>
         | None \<Rightarrow>
             logf InfoLevel ''%s Preflight check for kubectl utility is successful\<newline>''
               [Check] s2)"

definition clusterAccess_step :: "'w checks \<Rightarrow> 'w pstate \<Rightarrow> 'w pstate" where
  "clusterAccess_step ck s0 =
     (let s1 = logf InfoLevel ''Checking access to the default namespace of cluster'' [] s0;
          (err, s2) = invoke ClusterAccess (run_checkClusterAccess ck) s1
      in case err of
           Some e \<Rightarrow>
             (logf ErrorLevel ''%s Preflight check for cluster access failed :: %s\<newline>''
                [Cross, Str (Error e)] s2)\<lparr>preflightStatus := False\<rparr>
         | None \<Rightarrow>
             logf InfoLevel ''%s Preflight check for kubectl access is successful\<newline>''
               [Check] s2)"

definition helmVersion_step :: "'w checks \<Rightarrow> 'w pstate \<Rightarrow> 'w pstate" where
  "helmVersion_step ck s0 =
     (let s1 = logf InfoLevel ''Checking for required Helm version (>= %s)\<newline>''
                 [Konst ''MinHelmVersion''] s0;
          (err, s2) = invoke HelmVersion (run_checkHelmVersion ck) s1
      in case err of
           Some e \<Rightarrow>
             (logf ErrorLevel ''%s Preflight check for helm version failed :: %s\<newline>''
                [Cross, Str (Error e)] s2)\<lparr>preflightStatus := False\<rparr>
         | None \<Rightarrow>
             logf InfoLevel ''%s Preflight check for helm version is successful\<newline>''
               [Check] s2)"

definition kubernetesVersion_step :: "'w checks \<Rightarrow> 'w pstate \<Rightarrow> 'w pstate" where
  "kubernetesVersion_step ck s0 =
     (let s1 = logf InfoLevel ''Checking for required kubernetes server version (>=%s)\<newline>''
                 [Konst ''MinK8sVersion''] s0;
          (err, s2) = invoke KubernetesVersion (run_checkKubernetesVersion ck) s1
      in case err of
           Some e \<Rightarrow>
             (logf ErrorLevel ''%s Preflight check for kubernetes version failed :: %s\<newline>''
                [Cross, Str (Error e)] s2)\<lparr>preflightStatus := False\<rparr>
         | None \<Rightarrow>
             logf InfoLevel ''%s Preflight check for kubernetes version is successful\<newline>''
               [Check] s2)"

definition kubernetesRBAC_step :: "'w checks \<Rightarrow> 'w pstate \<Rightarrow> 'w pstate" where
  "kubernetesRBAC_step ck s0 =
     (let s1 = logf InfoLevel ''Checking Kubernetes RBAC'' [] s0;
          (err, s2) = invoke KubernetesRBAC (run_checkKubernetesRBAC ck) s1
      in case err of
           Some e \<Rightarrow>
             (logf ErrorLevel ''%s Preflight check for kubernetes RBAC failed :: %s\<newline>''
                [Cross, Str (Error e)] s2)\<lparr>preflightStatus := False\<rparr>
         | None \<Rightarrow>
             logf InfoLevel ''%s Preflight check for kubernetes RBAC is successful\<newline>''
               [Check] s2)"

definition storageSnapshotClass_step :: "'w checks \<Rightarrow> 'w pstate \<Rightarrow> 'w pstate" where
  "storageSnapshotClass_step ck s0 =
     (let s1 = logf InfoLevel
                 ''Checking if a StorageClass and VolumeSnapshotClass are present'' [] s0;
          (err, s2) = invoke StorageSnapshotClassMatch (run_checkStorageSnapshotClass ck) s1
      in case err of
           Some e \<Rightarrow>
             (logf ErrorLevel ''%s Preflight check for SnapshotClass failed :: %s\<newline>''
                [Cross, Str (Error e)] s2)
               \<lparr>preflightStatus := False, storageSnapshotSuccess := False\<rparr>
         | None \<Rightarrow>
             logf InfoLevel ''%s Preflight check for SnapshotClass is successful\<newline>''
               [Check] s2)"

definition csi_step :: "'w checks \<Rightarrow> 'w pstate \<Rightarrow> 'w pstate" where
  "csi_step ck s0 =
     (let s1 = logf InfoLevel ''Checking if CSI APIs are installed in the cluster'' [] s0;
          (err, s2) = invoke CSI (run_checkCSI ck) s1
      in case err of
           Some e \<Rightarrow>
             (logf ErrorLevel ''Preflight check for CSI failed :: %s\<newline>''
                [Str (Error e)] s2)\<lparr>preflightStatus := False\<rparr>
         | None \<Rightarrow>
             logf InfoLevel ''%s Preflight check for CSI is successful\<newline>'' [Check] s2)"

definition dnsResolution_step :: "'w checks \<Rightarrow> string \<Rightarrow> 'w pstate \<Rightarrow> 'w pstate" where
  "dnsResolution_step ck resNameSuffix s0 =
     (let s1 = logf InfoLevel ''Checking if DNS resolution is working in k8s cluster'' [] s0;
          (err, s2) = invoke DNSResolution (run_checkDNSResolution ck resNameSuffix) s1
      in case err of
           Some e \<Rightarrow>
             (logf ErrorLevel ''%s Preflight check for DNS resolution failed :: %s\<newline>''
                [Cross, Str (Error e)] s2)\<lparr>preflightStatus := False\<rparr>
         | None \<Rightarrow>
             logf InfoLevel ''%s Preflight check for DNS resolution is successful\<newline>''
               [Check] s2)"

definition volumeSnapshot_step :: "'w checks \<Rightarrow> string \<Rightarrow> 'w pstate \<Rightarrow> 'w pstate" where
  "volumeSnapshot_step ck resNameSuffix s0 =
     (if storageSnapshotSuccess s0 then
        (let s1 = logf InfoLevel
                    ''Checking if volume snapshot and restore is enabled in cluster'' [] s0;
             (err, s2) = invoke VolumeSnapshot (run_checkVolumeSnapshot ck resNameSuffix) s1
         in case err of
              Some e \<Rightarrow>
                (logf ErrorLevel
                   ''%s Preflight check for volume snapshot and restore failed :: %s\<newline>''
                   [Cross, Str (Error e)] s2)\<lparr>preflightStatus := False\<rparr>
            | None \<Rightarrow>
                logf InfoLevel
                  ''%s Preflight check for volume snapshot and restore is successful\<newline>''
                  [Check] s2)
      else
        logf ErrorLevel
          ''Skipping volume snapshot and restore check as preflight check for SnapshotClass failed''
          [] s0)"

definition cleanup_step :: "'w checks \<Rightarrow> RunOptions \<Rightarrow> string \<Rightarrow> 'w pstate \<Rightarrow> 'w pstate" where
  "cleanup_step ck o_run resNameSuffix s0 =
     (let s1 = (if \<not> preflightStatus s0
                then logf WarnLevel ''Some preflight checks failed'' [] s0
                else logf InfoLevel ''All preflight checks succeeded!'' [] s0)
      in if preflightStatus s1 \<or> PerformCleanupOnFail o_run then
           (let (err, w) = run_CleanupPreflightResources ck resNameSuffix (world s1);
                s2 = s1\<lparr>world := w, events := events s1 @ [CleanupCalled resNameSuffix err]\<rparr>
            in case err of
                 Some e \<Rightarrow>
                   logf ErrorLevel ''%s Failed to cleanup preflight resources :: %s\<newline>''
                     [Cross, Str (Error e)] s2
               | None \<Rightarrow> s2)
         else s1)"

definition PerformPreflightChecks ::
  "'w checks \<Rightarrow> RunOptions \<Rightarrow> string \<Rightarrow> reader \<Rightarrow> 'w \<Rightarrow> (error option \<times> 'w pstate) option" where
  "PerformPreflightChecks ck o_run letterBytes rd w =
     (let s = \<lparr>world = w, events = [], preflightStatus = True, storageSnapshotSuccess = True\<rparr>
      in case CreateResourceNameSuffix letterBytes rd of
           None \<Rightarrow> None
         | Some (Inl err, reads) \<Rightarrow>
             Some (Some err,
                   logf ErrorLevel ''Error generating resource name suffix :: %s''
                     [Str (Error err)] s)
         | Some (Inr resNameSuffix, reads) \<Rightarrow>
            Some
            (let s = logf InfoLevel ''Generated UID for preflight check - %s\<newline>''
                       [Str resNameSuffix] s;
                 s = kubectl_step ck s;
                 s = clusterAccess_step ck s;
                 s = helmVersion_step ck s;
                 s = kubernetesVersion_step ck s;
                 s = kubernetesRBAC_step ck s;
                 s = storageSnapshotClass_step ck s;
                 s = csi_step ck s;
                 s = dnsResolution_step ck resNameSuffix s;
                 s = volumeSnapshot_step ck resNameSuffix s;
                 s = cleanup_step ck o_run resNameSuffix s
             in if \<not> preflightStatus s
                then (Some (Errorf ''some preflight checks failed. Check logs for more details''), s)
                else (None, s)))"

subsection \<open>The checks of a run on one host and cluster\<close>

text \<open>
  The three remaining checks that only ask a question, and the checks above put together
  as the checks of a run. A site is what one host and one cluster answer, with the
  package constants the checks are called with. The world of such a run is the site,
  the package variable \<^verbatim>\<open>storageVolSnapClass\<close> and what has been done and logged by
  the checks. \<^verbatim>\<open>checkVolumeSnapshot\<close> and \<^verbatim>\<open>CleanupPreflightResources\<close> stay
  parameters.
\<close>

definition checkKubectl :: "'v helm_env \<Rightarrow> string \<Rightarrow> error option" where
  "checkKubectl env binaryName =
     (case LookPath env binaryName of
        Inl err \<Rightarrow> Some (Errorf (''error finding '' @ quoted binaryName @
                                  '' binary in $PATH of the system :: '' @ Error err))
      | Inr path \<Rightarrow> None)"

definition checkClusterAccess :: "(string \<Rightarrow> error option) \<Rightarrow> string \<Rightarrow> error option" where
  "checkClusterAccess Namespaces_Get DefaultNs =
     (case Namespaces_Get DefaultNs of
        Some err \<Rightarrow> Some (Errorf (''unable to access default namespace of cluster :: '' @ Error err))
      | None \<Rightarrow> None)"

definition checkKubernetesVersion ::
  "'v helm_env \<Rightarrow> (error + string) \<Rightarrow> string \<Rightarrow> error option" where
  "checkKubernetesVersion env ServerVersion minVersion =
     (case ServerVersion of
        Inl err \<Rightarrow> Some err
      | Inr GitVersion \<Rightarrow>
          (case NewVersion env minVersion of
             Inl err \<Rightarrow> Some err
           | Inr v1 \<Rightarrow>
               (case NewVersion env GitVersion of
                  Inl err \<Rightarrow> Some err
                | Inr v2 \<Rightarrow>
                    if LessThan env v2 v1
                    then Some (Errorf ''kubernetes server version does not meet minimum requirements'')
                    else None)))"

record 'v site =
  host :: "'v helm_env"
  kubectlBinaryName :: string
  DefaultNs :: string
  clientSet_Namespaces_Get :: "string \<Rightarrow> error option"
  MinK8sVersion :: string
  clientSet_ServerVersion :: "error + string"
  RBACAPIGroup :: string
  RBACAPIVersion :: string
  discClient_ServerGroups :: "APIGroupList option \<times> error option"
  api_server :: cluster
  dns_pods :: dns_env
  execDNSResolutionCmd :: "string list"

record 'v run_world =
  site :: "'v site"
  storageVolSnapClass_var :: string
  performed :: "action list"

definition preflight_checks ::
  "RunOptions \<Rightarrow> (string \<Rightarrow> 'v run_world \<Rightarrow> error option \<times> 'v run_world)
     \<Rightarrow> (string \<Rightarrow> 'v run_world \<Rightarrow> error option \<times> 'v run_world) \<Rightarrow> 'v run_world checks" where
  "preflight_checks o_run checkVolumeSnapshot CleanupPreflightResources =
     \<lparr>run_checkKubectl =
        (\<lambda>w. (checkKubectl (host (site w)) (kubectlBinaryName (site w)), w)),
      run_checkClusterAccess =
        (\<lambda>w. (checkClusterAccess (clientSet_Namespaces_Get (site w)) (DefaultNs (site w)), w)),
      run_checkHelmVersion =
        (\<lambda>w. (checkHelmVersion (host (site w)) (HelmBinaryName (host (site w))), w)),
      run_checkKubernetesVersion =
        (\<lambda>w. (checkKubernetesVersion (host (site w)) (clientSet_ServerVersion (site w))
                 (MinK8sVersion (site w)), w)),
      run_checkKubernetesRBAC =
        (\<lambda>w. (checkKubernetesRBAC (discClient_ServerGroups (site w))
                 (RBACAPIGroup (site w)) (RBACAPIVersion (site w)), w)),
      run_checkStorageSnapshotClass =
        (\<lambda>w. case checkStorageSnapshotClass (api_server (site w)) o_run
                     (storageVolSnapClass_var w) of
               (err, v) \<Rightarrow> (err, w\<lparr>storageVolSnapClass_var := v\<rparr>)),
      run_checkCSI =
        (\<lambda>w. case checkCSI (api_server (site w)) of
               (err, lg) \<Rightarrow> (err, w\<lparr>performed := performed w @ map Logline lg\<rparr>)),
      run_checkDNSResolution =
        (\<lambda>resNameSuffix w.
           case checkDNSResolution (dns_pods (site w)) (execDNSResolutionCmd (site w))
                  resNameSuffix of
             (err, acts) \<Rightarrow> (err, w\<lparr>performed := performed w @ acts\<rparr>)),
      run_checkVolumeSnapshot = checkVolumeSnapshot,
      run_CleanupPreflightResources = CleanupPreflightResources\<rparr>"

subsection \<open>The run command\<close>

text \<open>
  The steps of \<^verbatim>\<open>RunE\<close> before the checks are the errors they return.
  \<^verbatim>\<open>log.Fatal\<close> and \<^verbatim>\<open>logger.Fatalf\<close> write a message and end the process with
  status 1: the command ends in \<open>Fatal\<close> with the message given, or in \<open>Fatalf\<close> with
  the format and the operands given (\<^verbatim>\<open>logger.Fatalf(err.Error())\<close> gives the text
  of the error as the format, with no operand). The options are those held in
  \<^verbatim>\<open>cmdOps.PreflightOps\<close> once \<^verbatim>\<open>managePreflightInputs\<close> has filled them.
\<close>

record cmd_env =
  managePreflightInputs :: "error option"
  setupLogger :: "error option"
  InitKubeEnv :: "error option"
  OpenFile :: "error option"
  validateResourceRequirementsField :: "error option"

datatype 'a outcome = Fatal string | Fatalf string "string list" | Return 'a

definition RunE ::
  "cmd_env \<Rightarrow> 'w checks \<Rightarrow> RunOptions \<Rightarrow> string \<Rightarrow> reader \<Rightarrow> 'w
     \<Rightarrow> ((error option) outcome \<times> 'w \<times> event list) option" where
  "RunE env ck o_run letterBytes rd w =
     (case managePreflightInputs env of
        Some err \<Rightarrow> Some (Fatal (Error err), w, [])
      | None \<Rightarrow>
     (case setupLogger env of
        Some err \<Rightarrow> Some (Fatalf ''Failed to setup a logger :: %s'' [Error err], w, [])
      | None \<Rightarrow>
     (case InitKubeEnv env of
        Some err \<Rightarrow>
          Some (Fatalf ''Error initializing kubernetes clients :: %s'' [Error err], w, [])
      | None \<Rightarrow>
     (case OpenFile env of
        Some err \<Rightarrow>
          Some (Fatalf ''Failed to open preflight log file :: %s'' [Error err], w, [])
      | None \<Rightarrow>
     (case validateResourceRequirementsField env of
        Some err \<Rightarrow> Some (Fatalf (Error err) [], w, [])
      | None \<Rightarrow>
          if StorageClass o_run = []
          then Some (Fatalf ''storage-class is required, cannot be empty'' [], w, [])
          else if ImagePullSecret o_run \<noteq> [] \<and> LocalRegistry o_run = []
          then Some (Fatalf
                  (''Cannot give image pull secret if local registry is not provided.\<newline>'' @
                   ''Use --local-registry flag to provide local registry'') [], w, [])
          else (case PerformPreflightChecks ck o_run letterBytes rd w of
                  None \<Rightarrow> None
                | Some (err, s) \<Rightarrow> Some (Return err, world s, events s)))))))"

subsection \<open>Reading the records of a run\<close>

text \<open>
  The properties below are stated with the following readers of what a function did:
  whether a read of the random source is accepted and the entropy read between two
  positions, whether a snapshot class has a given driver, whether it has the top-level
  field that \<^verbatim>\<open>checkSnapshotclassForProvisioner\<close> compares for the default mark
  and whether it has the annotation by which Kubernetes marks the default class
  (\<^verbatim>\<open>metadata.annotations\<close>), whether the run command ended fatally, whether a lookup
  of \<^verbatim>\<open>checkCSI\<close> lets the loop go on and the line the loop logs for a name, the
  deletions among the actions of the DNS check and the answers under which that check
  reaches its last statement, and the calls, results, failures and cleanups among the
  events of a run.
\<close>

abbreviation accepted :: "nat \<Rightarrow> nat \<Rightarrow> bool" where
  "accepted max_n r \<equiv> candidate max_n r < max_n"

definition entropy :: "reader \<Rightarrow> nat \<Rightarrow> nat \<Rightarrow> nat list" where
  "entropy rd j m = concat (map (\<lambda>p. case rd p of Inl err \<Rightarrow> [] | Inr r \<Rightarrow> [r]) [j..<m])"

text \<open>
  What a returned call of the loop of \<^verbatim>\<open>rand.Int\<close> from position \<open>j\<close> has read, and
  what a returned run of the loop of \<^verbatim>\<open>CreateResourceNameSuffix\<close> from iteration
  \<open>i\<close> and position \<open>j\<close> has read.
\<close>

definition loop_read :: "reader \<Rightarrow> nat \<Rightarrow> nat \<Rightarrow> (error + nat) \<times> nat \<Rightarrow> bool" where
  "loop_read rd n j y =
     (j < snd y \<and>
      (\<forall>p. j \<le> p \<and> p < snd y - 1 \<longrightarrow> (\<exists>r. rd p = Inr r \<and> \<not> accepted n r)) \<and>
      (case fst y of
         Inl e \<Rightarrow> rd (snd y - 1) = Inl e
       | Inr v \<Rightarrow> (\<exists>r. rd (snd y - 1) = Inr r \<and> accepted n r \<and> v = candidate n r)))"

definition suffix_read ::
  "string \<Rightarrow> reader \<Rightarrow> nat \<Rightarrow> string \<Rightarrow> nat \<Rightarrow> (error + string) \<times> nat \<Rightarrow> bool" where
  "suffix_read lb rd i s j y =
     (case fst y of
        Inr t \<Rightarrow>
          length t = length s \<and> j \<le> snd y \<and>
          (\<forall>p. j \<le> p \<and> p < snd y \<longrightarrow> (\<exists>r. rd p = Inr r)) \<and>
          t = take i s @ map (\<lambda>r. lb ! candidate (length lb) r)
                          (filter (accepted (length lb)) (entropy rd j (snd y))) \<and>
          length (filter (accepted (length lb)) (entropy rd j (snd y))) = length s - i
      | Inl e \<Rightarrow>
          j < snd y \<and> rd (snd y - 1) = Inl e \<and>
          (\<forall>p. j \<le> p \<and> p < snd y - 1 \<longrightarrow> (\<exists>r. rd p = Inr r)) \<and>
          length (filter (accepted (length lb)) (entropy rd j (snd y - 1))) < length s - i)"

definition annotated_default :: "unstructured \<Rightarrow> bool" where
  "annotated_default vssc =
     (case map_of vssc ''metadata'' of
        Some (JObject m) \<Rightarrow>
          (case map_of m ''annotations'' of
             Some (JObject a) \<Rightarrow>
               map_of a ''snapshot.storage.kubernetes.io/is-default-class'' = Some (JString ''true'')
           | _ \<Rightarrow> False)
      | _ \<Rightarrow> False)"

fun is_fatal :: "'a outcome \<Rightarrow> bool" where
  "is_fatal (Fatal m) = True"
| "is_fatal (Fatalf fmt operands) = True"
| "is_fatal (Return r) = False"

fun called_of :: "event list \<Rightarrow> (check_id \<times> error option) list" where
  "called_of [] = []"
| "called_of (Called c r # es) = (c, r) # called_of es"
| "called_of (e # es) = called_of es"

abbreviation driver_is :: "string \<Rightarrow> unstructured \<Rightarrow> bool" where
  "driver_is provisioner vssc \<equiv> map_of vssc ''driver'' = Some (JString provisioner)"

abbreviation is_default_class :: "unstructured \<Rightarrow> bool" where
  "is_default_class vssc \<equiv>
     map_of vssc ''snapshot.storage.kubernetes.io/is-default-class'' = Some (JString ''true'')"

abbreviation csi_known :: "cluster \<Rightarrow> gvk \<Rightarrow> string \<Rightarrow> bool" where
  "csi_known c u api \<equiv>
     runtimeClient_Get c u api = None \<or> IsNotFound_opt (runtimeClient_Get c u api)"

abbreviation csi_line :: "cluster \<Rightarrow> gvk \<Rightarrow> string \<Rightarrow> logline" where
  "csi_line c u api \<equiv>
     (if runtimeClient_Get c u api = None
      then Logf InfoLevel ''%s Found CSI API - %s on cluster\<newline>'' [Check, Str api]
      else Logf ErrorLevel ''%s Not found CSI API - %s\<newline>'' [Cross, Str api])"

fun is_delete :: "action \<Rightarrow> bool" where
  "is_delete (DeleteResource p) = True"
| "is_delete a = False"

definition dns_success_path :: "dns_env \<Rightarrow> string list \<Rightarrow> string \<Rightarrow> bool" where
  "dns_success_path env execCommand podNameSuffix =
     (let pod = createDNSPodSpec env podNameSuffix in
      Pods_Create env pod = None \<and> waitUntilPodCondition env pod = None \<and>
      (case Pods_Get env pod of Inl err \<Rightarrow> False | Inr p \<Rightarrow> execInPod env p execCommand = None))"

fun calls_of :: "event list \<Rightarrow> check_id list" where
  "calls_of [] = []"
| "calls_of (Called c r # es) = c # calls_of es"
| "calls_of (e # es) = calls_of es"

fun results_of :: "check_id \<Rightarrow> event list \<Rightarrow> error option list" where
  "results_of c [] = []"
| "results_of c (Called c' r # es) = (if c' = c then r # results_of c es else results_of c es)"
| "results_of c (e # es) = results_of c es"

fun failures_of :: "event list \<Rightarrow> check_id list" where
  "failures_of [] = []"
| "failures_of (Called c (Some err) # es) = c # failures_of es"
| "failures_of (e # es) = failures_of es"

fun cleanups_of :: "event list \<Rightarrow> (string \<times> error option) list" where
  "cleanups_of [] = []"
| "cleanups_of (CleanupCalled uid r # es) = (uid, r) # cleanups_of es"
| "cleanups_of (e # es) = cleanups_of es"

text \<open>The flag \<^verbatim>\<open>preflightStatus\<close> is true exactly while no call of a check has failed.\<close>

definition status_inv :: "'w pstate \<Rightarrow> bool" where
  "status_inv s = (preflightStatus s = (failures_of (events s) = []))"

text \<open>The state in which the last check leaves a run whose suffix is \<open>uid\<close>.\<close>

definition after_checks :: "'w checks \<Rightarrow> string \<Rightarrow> 'w \<Rightarrow> 'w pstate" where
  "after_checks ck uid w =
     volumeSnapshot_step ck uid (dnsResolution_step ck uid (csi_step ck
       (storageSnapshotClass_step ck (kubernetesRBAC_step ck (kubernetesVersion_step ck
         (helmVersion_step ck (clusterAccess_step ck (kubectl_step ck
           (logf InfoLevel ''Generated UID for preflight check - %s\<newline>'' [Str uid]
              \<lparr>world = w, events = [], preflightStatus = True, storageSnapshotSuccess = True\<rparr>)))))))))"

subsection \<open>Concrete hosts and clusters\<close>

text \<open>
  Inputs on which the functions are run further down: a random source that answers, one
  that fails and one that fails at its seventh read, an OpenShift cluster seen from a host that has no \<^verbatim>\<open>helm\<close>, a
  cluster with the storage class \<^verbatim>\<open>standard\<close> of provisioner
  \<^verbatim>\<open>csi.example.com\<close>, given snapshot classes and given custom resource definitions,
  a cluster in which the DNS pod runs, and checks that all pass but for the storage
  check, whose result is given, over a world that is the list of the resources left in
  the namespace.
\<close>

definition example_reader :: reader where
  "example_reader k = Inr (k * 7 + 3)"

definition failing_reader :: reader where
  "failing_reader k = Inl (Failure ''entropy source unavailable'')"

definition late_failing_reader :: reader where
  "late_failing_reader k =
     (if k < 6 then Inr (k * 7 + 3) else Inl (Failure ''entropy source unavailable''))"

definition openshift_host_without_helm :: "nat list helm_env" where
  "openshift_host_without_helm =
     \<lparr>CheckIsOpenshift = True,
      LookPath = (\<lambda>b. Inl (Failure ''executable file not found in $PATH'')),
      GetHelmVersion = (\<lambda>b. Inl (Failure ''exec: helm: executable file not found in $PATH'')),
      NewVersion = (\<lambda>s. Inl (Failure ''Malformed version'')),
      LessThan = (\<lambda>a b. False),
      HelmBinaryName = ''helm'',
      MinHelmVersion = ''3.0.0''\<rparr>"

definition snapclass :: "string \<Rightarrow> string \<Rightarrow> unstructured" where
  "snapclass n driver =
     [(''driver'', JString driver), (''metadata'', JObject [(''name'', JString n)])]"

definition annotated_snapclass :: "string \<Rightarrow> string \<Rightarrow> unstructured" where
  "annotated_snapclass n driver =
     [(''driver'', JString driver),
      (''metadata'', JObject [(''name'', JString n),
         (''annotations'', JObject
            [(''snapshot.storage.kubernetes.io/is-default-class'', JString ''true'')])])]"

definition example_cluster :: "unstructured list \<Rightarrow> string list \<Rightarrow> cluster" where
  "example_cluster Items crds =
     \<lparr>StorageSnapshotGroup = ''snapshot.storage.k8s.io'',
      VolumeSnapshotClassKind = ''VolumeSnapshotClass'',
      apiExtenstionsGroup = ''apiextensions.k8s.io'',
      customResourceDefinition = ''CustomResourceDefinition'',
      CsiApis = [''volumesnapshotclasses.snapshot.storage.k8s.io'',
                 ''volumesnapshotcontents.snapshot.storage.k8s.io'',
                 ''volumesnapshots.snapshot.storage.k8s.io''],
      GetServerPreferredVersionForGroup = (\<lambda>g. Inr ''v1''),
      runtimeClient_List = (\<lambda>u. Inr Items),
      runtimeClient_Get = (\<lambda>u n. if n \<in> set crds then None else Some (StatusNotFound n)),
      StorageClasses_Get =
        (\<lambda>n. if n = ''standard'' then Inr \<lparr>Provisioner = ''csi.example.com''\<rparr>
             else Inl (StatusNotFound n)),
      clusterHasVolumeSnapshotClass =
        (\<lambda>n. case find (\<lambda>v. GetName v = n) Items of
               Some v \<Rightarrow> Inr v
             | None \<Rightarrow> Inl (StatusNotFound n))\<rparr>"

definition example_options :: "string \<Rightarrow> string \<Rightarrow> RunOptions" where
  "example_options sc ssc =
     \<lparr>StorageClass = sc, SnapshotClass = ssc, LocalRegistry = [], ImagePullSecret = [],
      ServiceAccountName = [], PerformCleanupOnFail = True\<rparr>"

definition example_dns_env :: "error option \<Rightarrow> dns_env" where
  "example_dns_env deleted =
     \<lparr>createDNSPodSpec = (\<lambda>suffix. ''test-dns-pod-'' @ suffix),
      Pods_Create = (\<lambda>p. None),
      waitUntilPodCondition = (\<lambda>p. None),
      Pods_Get = (\<lambda>p. Inr p),
      execInPod = (\<lambda>p cmd. None),
      deleteK8sResource = (\<lambda>p. deleted)\<rparr>"

definition example_checks :: "error option \<Rightarrow> error option \<Rightarrow> string list checks" where
  "example_checks storage cleaned =
     \<lparr>run_checkKubectl = (\<lambda>w. (None, w)),
      run_checkClusterAccess = (\<lambda>w. (None, w)),
      run_checkHelmVersion = (\<lambda>w. (None, w)),
      run_checkKubernetesVersion = (\<lambda>w. (None, w)),
      run_checkKubernetesRBAC = (\<lambda>w. (None, w)),
      run_checkStorageSnapshotClass = (\<lambda>w. (storage, w)),
      run_checkCSI = (\<lambda>w. (None, w)),
      run_checkDNSResolution = (\<lambda>uid w. (None, w)),
      run_checkVolumeSnapshot = (\<lambda>uid w. (None, (''source-pvc-'' @ uid) # w)),
      run_CleanupPreflightResources =
        (\<lambda>uid w. (cleaned, if cleaned = None then [] else w))\<rparr>"

definition example_cmd_env :: cmd_env where
  "example_cmd_env =
     \<lparr>managePreflightInputs = None, setupLogger = None, InitKubeEnv = None,
      OpenFile = None, validateResourceRequirementsField = None\<rparr>"

section \<open>Properties\<close>

subsection \<open>Resource name suffix\<close>

lemma bitLen_eq_0: "bitLen n = 0 \<longleftrightarrow> n = 0"
  by (subst bitLen.simps) simp

lemma rand_Int_single: "rand_Int rd (Suc 0) j = Some (Inr 0, j)"
  by (simp add: rand_Int_def bitLen_eq_0)

lemma rand_Int_loop_eq: "2 \<le> n \<Longrightarrow> rand_Int rd n j = rand_Int_loop rd n j"
  by (simp add: rand_Int_def bitLen_eq_0)

text \<open>What a finished call of the loop has read.\<close>

lemma rand_Int_loop_sound:
  assumes "rand_Int_loop rd n j = Some y"
  shows "loop_read rd n j y"
proof (rule rand_Int_loop.raw_induct[where P = loop_read, OF _ assms])
  fix loop :: "reader \<Rightarrow> nat \<Rightarrow> nat \<Rightarrow> ((error + nat) \<times> nat) option" and rd n j y
  assume ih: "\<And>rd n j y. loop rd n j = Some y \<Longrightarrow> loop_read rd n j y"
    and body: "(case rd j of
                  Inl err \<Rightarrow> Some (Inl err, Suc j)
                | Inr r \<Rightarrow>
                    if accepted n r then Some (Inr (candidate n r), Suc j)
                    else loop rd n (Suc j)) = Some y"
  show "loop_read rd n j y"
  proof (cases "rd j")
    case (Inl e)
    with body show ?thesis by (auto simp: loop_read_def)
  next
    case (Inr r)
    show ?thesis
    proof (cases "accepted n r")
      case True
      with Inr body show ?thesis by (auto simp: loop_read_def)
    next
      case False
      with Inr body have rec: "loop rd n (Suc j) = Some y" by simp
      have rd': "loop_read rd n (Suc j) y" using rec by (rule ih)
      have rej: "\<forall>p. j \<le> p \<and> p < snd y - 1 \<longrightarrow> (\<exists>r. rd p = Inr r \<and> \<not> accepted n r)"
      proof (intro allI impI)
        fix p assume p: "j \<le> p \<and> p < snd y - 1"
        show "\<exists>r. rd p = Inr r \<and> \<not> accepted n r"
        proof (cases "p = j")
          case True
          with Inr False show ?thesis by simp
        next
          case False
          with p have "Suc j \<le> p \<and> p < snd y - 1" by simp
          with rd' show ?thesis by (simp add: loop_read_def)
        qed
      qed
      from rd' rej show ?thesis by (simp add: loop_read_def)
    qed
  qed
qed

text \<open>The loop goes over rejected reads to the first read that fails or is accepted.\<close>

lemma rand_Int_loop_skip:
  assumes "\<forall>p. j \<le> p \<and> p < k \<longrightarrow> (\<exists>r. rd p = Inr r \<and> \<not> accepted n r)" and "j \<le> k"
  shows "rand_Int_loop rd n j = rand_Int_loop rd n k"
  using assms
proof (induction "k - j" arbitrary: j)
  case 0
  then show ?case by simp
next
  case (Suc d)
  then have jk: "j < k" by simp
  with Suc.prems obtain r where r: "rd j = Inr r" "\<not> accepted n r" by auto
  have step: "rand_Int_loop rd n j = rand_Int_loop rd n (Suc j)"
    using r by (subst rand_Int_loop.simps) simp
  have "rand_Int_loop rd n (Suc j) = rand_Int_loop rd n k"
    using Suc.hyps Suc.prems jk by (intro Suc.hyps(1)) auto
  with step show ?case by simp
qed

lemma rand_Int_loop_fails:
  assumes "\<forall>p. j \<le> p \<and> p < k \<longrightarrow> (\<exists>r. rd p = Inr r \<and> \<not> accepted n r)" and "j \<le> k"
    and "rd k = Inl e"
  shows "rand_Int_loop rd n j = Some (Inl e, Suc k)"
proof -
  have "rand_Int_loop rd n k = Some (Inl e, Suc k)"
    using assms(3) by (subst rand_Int_loop.simps) simp
  with rand_Int_loop_skip[OF assms(1,2)] show ?thesis by simp
qed

lemma rand_Int_loop_accepts:
  assumes "\<forall>p. j \<le> p \<and> p < k \<longrightarrow> (\<exists>r. rd p = Inr r \<and> \<not> accepted n r)" and "j \<le> k"
    and "rd k = Inr r" and "accepted n r"
  shows "rand_Int_loop rd n j = Some (Inr (candidate n r), Suc k)"
proof -
  have "rand_Int_loop rd n k = Some (Inr (candidate n r), Suc k)"
    using assms(3,4) by (subst rand_Int_loop.simps) simp
  with rand_Int_loop_skip[OF assms(1,2)] show ?thesis by simp
qed

text \<open>The entropy read between two positions.\<close>

lemma entropy_empty [simp]: "entropy rd j j = []"
  by (simp add: entropy_def)

lemma entropy_Suc:
  "j \<le> m \<Longrightarrow> entropy rd j (Suc m) =
     entropy rd j m @ (case rd m of Inl err \<Rightarrow> [] | Inr r \<Rightarrow> [r])"
  by (simp add: entropy_def)

lemma entropy_append:
  "j \<le> k \<Longrightarrow> k \<le> m \<Longrightarrow> entropy rd j m = entropy rd j k @ entropy rd k m"
proof (induction m)
  case 0
  then show ?case by simp
next
  case (Suc m)
  show ?case
  proof (cases "k = Suc m")
    case True
    then show ?thesis by simp
  next
    case False
    with Suc.prems have km: "k \<le> m" by simp
    with Suc.prems have jm: "j \<le> m" by simp
    show ?thesis using Suc.IH[OF Suc.prems(1) km] by (simp add: entropy_Suc km jm)
  qed
qed

lemma entropy_rejected:
  assumes "\<forall>p. j \<le> p \<and> p < k \<longrightarrow> (\<exists>r. rd p = Inr r \<and> \<not> accepted n r)" and "j \<le> k"
  shows "filter (accepted n) (entropy rd j k) = []"
  using assms
proof (induction k)
  case 0
  then show ?case by simp
next
  case (Suc k)
  show ?case
  proof (cases "j = Suc k")
    case True
    then show ?thesis by simp
  next
    case False
    with Suc.prems have jk: "j \<le> k" by simp
    from Suc.prems jk obtain r where r: "rd k = Inr r" "\<not> accepted n r" by auto
    have "filter (accepted n) (entropy rd j k) = []"
      using Suc.prems jk by (intro Suc.IH) auto
    then show ?thesis using r by (simp add: entropy_Suc jk)
  qed
qed

lemma entropy_block:
  assumes "\<forall>p. j \<le> p \<and> p < k \<longrightarrow> (\<exists>r. rd p = Inr r \<and> \<not> accepted n r)" and "j \<le> k"
    and "rd k = Inr r" and "accepted n r"
  shows "filter (accepted n) (entropy rd j (Suc k)) = [r]"
  using entropy_rejected[OF assms(1,2)] assms(2,3,4) by (simp add: entropy_Suc)

lemma suffix_loop_single:
  "length lb = 1 \<Longrightarrow> i \<le> length s \<Longrightarrow>
   suffix_loop lb rd i s j = Some (Inr (take i s @ replicate (length s - i) (lb ! 0)), j)"
proof (induction lb rd i s j rule: suffix_loop.induct)
  case (1 lb rd i s j)
  show ?case
  proof (cases "i < length s")
    case False
    with "1.prems" show ?thesis by (simp add: suffix_loop.simps[of lb rd i s j])
  next
    case True
    have r: "rand_Int rd (length lb) j = Some (Inr 0, j)"
      using "1.prems" by (simp add: rand_Int_single)
    have step: "suffix_loop lb rd i s j = suffix_loop lb rd (Suc i) (s[i := lb ! 0]) j"
      using True r "1.prems" by (simp add: suffix_loop.simps[of lb rd i s j])
    have ih: "suffix_loop lb rd (Suc i) (s[i := lb ! 0]) j =
        Some (Inr (take (Suc i) (s[i := lb ! 0]) @
                   replicate (length (s[i := lb ! 0]) - Suc i) (lb ! 0)), j)"
      using "1.IH"[OF True r refl refl _ "1.prems"(1)] True "1.prems" by simp
    have d: "length s - i = Suc (length s - Suc i)" using True by simp
    have "take (Suc i) (s[i := lb ! 0]) @ replicate (length s - Suc i) (lb ! 0) =
          take i s @ replicate (length s - i) (lb ! 0)"
      unfolding d using True by (simp add: take_Suc_conv_app_nth)
    with step ih show ?thesis by simp
  qed
qed

lemma suffix_loop_sound:
  "suffix_loop lb rd i s j = Some y \<Longrightarrow> 2 \<le> length lb \<Longrightarrow> i \<le> length s \<Longrightarrow>
     suffix_read lb rd i s j y"
proof (induction lb rd i s j arbitrary: y rule: suffix_loop.induct)
  case (1 lb rd i s j)
  let ?n = "length lb"
  show ?case
  proof (cases "i < length s")
    case False
    with "1.prems" show ?thesis
      by (auto simp: suffix_loop.simps[of lb rd i s j] suffix_read_def)
  next
    case True
    have ri: "rand_Int rd ?n j = rand_Int_loop rd ?n j"
      using "1.prems" by (simp add: rand_Int_loop_eq)
    show ?thesis
    proof (cases "rand_Int_loop rd ?n j")
      case None
      with True ri "1.prems" show ?thesis by (simp add: suffix_loop.simps[of lb rd i s j])
    next
      case (Some z)
      then have lr: "loop_read rd ?n j z" by (rule rand_Int_loop_sound)
      obtain res j' where z: "z = (res, j')" by (cases z)
      from lr z have jj': "j < j'"
        and rej: "\<forall>p. j \<le> p \<and> p < j' - 1 \<longrightarrow> (\<exists>r. rd p = Inr r \<and> \<not> accepted ?n r)"
        by (simp_all add: loop_read_def)
      have rej0: "filter (accepted ?n) (entropy rd j (j' - 1)) = []"
        using rej jj' by (intro entropy_rejected) auto
      show ?thesis
      proof (cases res)
        case (Inl e)
        with lr z have last: "rd (j' - 1) = Inl e" by (simp add: loop_read_def)
        have y: "y = (Inl e, j')"
          using True ri Some z Inl "1.prems" by (simp add: suffix_loop.simps[of lb rd i s j])
        show ?thesis using y jj' last rej rej0 True by (auto simp: suffix_read_def)
      next
        case (Inr idx)
        with lr z obtain r where r: "rd (j' - 1) = Inr r" "accepted ?n r" "idx = candidate ?n r"
          by (auto simp: loop_read_def)
        then have lt: "idx < ?n" by simp
        have ri': "rand_Int rd ?n j = Some (Inr idx, j')" using ri Some z Inr by simp
        have rec: "suffix_loop lb rd (Suc i) (s[i := lb ! idx]) j' = Some y"
          using True ri' lt "1.prems" by (simp add: suffix_loop.simps[of lb rd i s j])
        have ih: "suffix_read lb rd (Suc i) (s[i := lb ! idx]) j' y"
          using "1.IH"[OF True ri' refl refl lt rec "1.prems"(2)] True by simp
        have blk: "filter (accepted ?n) (entropy rd j j') = [r]"
          using entropy_block[of j "j' - 1" rd ?n r] rej r jj' by simp
        have tk: "take (Suc i) (s[i := lb ! idx]) = take i s @ [lb ! idx]"
          using True by (simp add: take_Suc_conv_app_nth)
        show ?thesis
        proof (cases "fst y")
          case (Inr t)
          with ih have a: "length t = length s" "j' \<le> snd y"
            "\<forall>p. j' \<le> p \<and> p < snd y \<longrightarrow> (\<exists>r. rd p = Inr r)"
            "t = take (Suc i) (s[i := lb ! idx]) @ map (\<lambda>r. lb ! candidate ?n r)
                          (filter (accepted ?n) (entropy rd j' (snd y)))"
            "length (filter (accepted ?n) (entropy rd j' (snd y))) = length s - Suc i"
            by (simp_all add: suffix_read_def)
          have ap: "entropy rd j (snd y) = entropy rd j j' @ entropy rd j' (snd y)"
            using jj' a(2) by (intro entropy_append) simp_all
          have all: "\<forall>p. j \<le> p \<and> p < snd y \<longrightarrow> (\<exists>r. rd p = Inr r)"
          proof (intro allI impI)
            fix p assume p: "j \<le> p \<and> p < snd y"
            show "\<exists>r. rd p = Inr r"
            proof (cases "p < j' - 1")
              case True with rej p show ?thesis by blast
            next
              case False
              show ?thesis
              proof (cases "p = j' - 1")
                case True with r show ?thesis by simp
              next
                case False
                with \<open>\<not> p < j' - 1\<close> have "j' \<le> p" by simp
                with a(3) p show ?thesis by simp
              qed
            qed
          qed
          show ?thesis
            using Inr a all ap blk tk r(3) jj' True by (simp add: suffix_read_def)
        next
          case (Inl e)
          with ih have a: "j' < snd y" "rd (snd y - 1) = Inl e"
            "\<forall>p. j' \<le> p \<and> p < snd y - 1 \<longrightarrow> (\<exists>r. rd p = Inr r)"
            "length (filter (accepted ?n) (entropy rd j' (snd y - 1))) < length s - Suc i"
            by (simp_all add: suffix_read_def)
          have ap: "entropy rd j (snd y - 1) = entropy rd j j' @ entropy rd j' (snd y - 1)"
            using jj' a(1) by (intro entropy_append) simp_all
          have all: "\<forall>p. j \<le> p \<and> p < snd y - 1 \<longrightarrow> (\<exists>r. rd p = Inr r)"
          proof (intro allI impI)
            fix p assume p: "j \<le> p \<and> p < snd y - 1"
            show "\<exists>r. rd p = Inr r"
            proof (cases "p < j' - 1")
              case True with rej p show ?thesis by blast
            next
              case False
              show ?thesis
              proof (cases "p = j' - 1")
                case True with r show ?thesis by simp
              next
                case False
                with \<open>\<not> p < j' - 1\<close> have "j' \<le> p" by simp
                with a(3) p show ?thesis by simp
              qed
            qed
          qed
          show ?thesis
            using Inl a all ap blk jj' True by (simp add: suffix_read_def)
        qed
      qed
    qed
  qed
qed

text \<open>The first read from a position that fails or is accepted.\<close>

lemma first_decisive:
  assumes "(j::nat) \<le> k" and "\<not> (\<exists>r. rd k = Inr r \<and> \<not> accepted n r)"
  shows "\<exists>q. j \<le> q \<and> q \<le> k \<and> \<not> (\<exists>r. rd q = Inr r \<and> \<not> accepted n r) \<and>
             (\<forall>p. j \<le> p \<and> p < q \<longrightarrow> (\<exists>r. rd p = Inr r \<and> \<not> accepted n r))"
proof -
  define D where "D q = (j \<le> q \<and> \<not> (\<exists>r. rd q = Inr r \<and> \<not> accepted n r))" for q
  have ex: "D k" using assms by (simp add: D_def)
  then obtain q where dq: "D q" and least: "\<forall>p<q. \<not> D p"
    using exists_least_iff[of D] by blast
  have le: "q \<le> k"
  proof (rule ccontr)
    assume "\<not> q \<le> k"
    then have "k < q" by simp
    with least ex show False by blast
  qed
  have min: "\<forall>p. j \<le> p \<and> p < q \<longrightarrow> (\<exists>r. rd p = Inr r \<and> \<not> accepted n r)"
  proof (intro allI impI)
    fix p assume p: "j \<le> p \<and> p < q"
    then have "\<not> D p" using least by blast
    with p show "\<exists>r. rd p = Inr r \<and> \<not> accepted n r" by (simp add: D_def)
  qed
  from dq le min show ?thesis unfolding D_def by blast
qed

lemma suffix_loop_returns_error:
  assumes n: "2 \<le> length lb"
  shows "rd k = Inl e \<Longrightarrow> j \<le> k \<Longrightarrow> i \<le> length s \<Longrightarrow>
     \<forall>p. j \<le> p \<and> p < k \<longrightarrow> (\<exists>r. rd p = Inr r) \<Longrightarrow>
     length (filter (accepted (length lb)) (entropy rd j k)) < length s - i \<Longrightarrow>
     suffix_loop lb rd i s j = Some (Inl e, Suc k)"
proof (induction "k - j" arbitrary: i s j rule: less_induct)
  case less
  let ?n = "length lb"
  have lt: "i < length s" using less.prems(5) by simp
  have ri: "rand_Int rd ?n j = rand_Int_loop rd ?n j" using n by (simp add: rand_Int_loop_eq)
  have dk: "\<not> (\<exists>r. rd k = Inr r \<and> \<not> accepted ?n r)" using less.prems(1) by simp
  obtain q where q: "j \<le> q" "q \<le> k" "\<not> (\<exists>r. rd q = Inr r \<and> \<not> accepted ?n r)"
    "\<forall>p. j \<le> p \<and> p < q \<longrightarrow> (\<exists>r. rd p = Inr r \<and> \<not> accepted ?n r)"
    using first_decisive[of j k rd ?n] less.prems(2) dk by blast
  show ?case
  proof (cases "q = k")
    case True
    have "rand_Int_loop rd ?n j = Some (Inl e, Suc k)"
      using rand_Int_loop_fails[of j k rd ?n e] q True less.prems(1,2) by simp
    then show ?thesis using lt ri by (simp add: suffix_loop.simps[of lb rd i s j])
  next
    case False
    with q have qk: "q < k" by simp
    with less.prems(4) q(1) obtain r where r: "rd q = Inr r" by blast
    with q(3) have acc: "accepted ?n r" by simp
    have loop: "rand_Int_loop rd ?n j = Some (Inr (candidate ?n r), Suc q)"
      using rand_Int_loop_accepts[of j q rd ?n r] q r acc by simp
    have step: "suffix_loop lb rd i s j =
                  suffix_loop lb rd (Suc i) (s[i := lb ! candidate ?n r]) (Suc q)"
      using lt ri loop acc by (simp add: suffix_loop.simps[of lb rd i s j])
    have blk: "filter (accepted ?n) (entropy rd j (Suc q)) = [r]"
      using entropy_block[of j q rd ?n r] q r acc by simp
    have ap: "entropy rd j k = entropy rd j (Suc q) @ entropy rd (Suc q) k"
      using q(1) qk by (intro entropy_append) simp_all
    have cnt: "length (filter (accepted ?n) (entropy rd (Suc q) k)) <
                 length (s[i := lb ! candidate ?n r]) - Suc i"
      using less.prems(5) ap blk by simp
    have "suffix_loop lb rd (Suc i) (s[i := lb ! candidate ?n r]) (Suc q) = Some (Inl e, Suc k)"
    proof (rule less.hyps)
      show "k - Suc q < k - j" using q(1) qk by simp
      show "rd k = Inl e" by (rule less.prems(1))
      show "Suc q \<le> k" using qk by simp
      show "Suc i \<le> length (s[i := lb ! candidate ?n r])" using lt by simp
      show "\<forall>p. Suc q \<le> p \<and> p < k \<longrightarrow> (\<exists>r. rd p = Inr r)" using less.prems(4) q(1) by simp
      show "length (filter (accepted ?n) (entropy rd (Suc q) k)) <
              length (s[i := lb ! candidate ?n r]) - Suc i" by (rule cnt)
    qed
    with step show ?thesis by simp
  qed
qed

lemma accepted_read_exists:
  assumes "filter (accepted n) (entropy rd j m) \<noteq> []"
  obtains q where "j \<le> q" "q < m" "\<not> (\<exists>r. rd q = Inr r \<and> \<not> accepted n r)"
proof -
  from assms obtain r where "r \<in> set (entropy rd j m)" "accepted n r"
    by (auto simp: filter_empty_conv)
  then obtain q where "q \<in> set [j..<m]" "rd q = Inr r"
    by (auto simp: entropy_def split: sum.splits)
  with \<open>accepted n r\<close> show ?thesis using that by auto
qed

lemma suffix_loop_returns_suffix:
  assumes n: "2 \<le> length lb"
  shows "i \<le> length s \<Longrightarrow> j \<le> m \<Longrightarrow>
     \<forall>p. j \<le> p \<and> p < m \<longrightarrow> (\<exists>r. rd p = Inr r) \<Longrightarrow>
     length s - i \<le> length (filter (accepted (length lb)) (entropy rd j m)) \<Longrightarrow>
     \<exists>t m'. suffix_loop lb rd i s j = Some (Inr t, m')"
proof (induction "m - j" arbitrary: i s j rule: less_induct)
  case less
  let ?n = "length lb"
  show ?case
  proof (cases "i < length s")
    case False
    then show ?thesis by (simp add: suffix_loop.simps[of lb rd i s j])
  next
    case True
    have ri: "rand_Int rd ?n j = rand_Int_loop rd ?n j" using n by (simp add: rand_Int_loop_eq)
    have ne: "filter (accepted ?n) (entropy rd j m) \<noteq> []" using less.prems(4) True by auto
    obtain q0 where q0: "j \<le> q0" "q0 < m" "\<not> (\<exists>r. rd q0 = Inr r \<and> \<not> accepted ?n r)"
      using accepted_read_exists[OF ne] by blast
    obtain q where q: "j \<le> q" "q \<le> q0" "\<not> (\<exists>r. rd q = Inr r \<and> \<not> accepted ?n r)"
      "\<forall>p. j \<le> p \<and> p < q \<longrightarrow> (\<exists>r. rd p = Inr r \<and> \<not> accepted ?n r)"
      using first_decisive[of j q0 rd ?n] q0(1,3) by blast
    have qm: "q < m" using q(2) q0(2) by simp
    with less.prems(3) q(1) obtain r where r: "rd q = Inr r" by blast
    with q(3) have acc: "accepted ?n r" by simp
    have loop: "rand_Int_loop rd ?n j = Some (Inr (candidate ?n r), Suc q)"
      using rand_Int_loop_accepts[of j q rd ?n r] q r acc by simp
    have step: "suffix_loop lb rd i s j =
                  suffix_loop lb rd (Suc i) (s[i := lb ! candidate ?n r]) (Suc q)"
      using True ri loop acc by (simp add: suffix_loop.simps[of lb rd i s j])
    have blk: "filter (accepted ?n) (entropy rd j (Suc q)) = [r]"
      using entropy_block[of j q rd ?n r] q r acc by simp
    have ap: "entropy rd j m = entropy rd j (Suc q) @ entropy rd (Suc q) m"
      using q(1) qm by (intro entropy_append) simp_all
    have "\<exists>t m'. suffix_loop lb rd (Suc i) (s[i := lb ! candidate ?n r]) (Suc q) = Some (Inr t, m')"
    proof (rule less.hyps)
      show "m - Suc q < m - j" using q(1) qm by simp
      show "Suc i \<le> length (s[i := lb ! candidate ?n r])" using True by simp
      show "Suc q \<le> m" using qm by simp
      show "\<forall>p. Suc q \<le> p \<and> p < m \<longrightarrow> (\<exists>r. rd p = Inr r)" using less.prems(3) q(1) by simp
      show "length (s[i := lb ! candidate ?n r]) - Suc i
              \<le> length (filter (accepted ?n) (entropy rd (Suc q) m))"
        using less.prems(4) ap blk by simp
    qed
    with step show ?thesis by simp
  qed
qed

lemma letterBytes_cases:
  assumes "letterBytes \<noteq> []"
  obtains "length letterBytes = 1" | "2 \<le> length letterBytes"
  using assms by (cases letterBytes; cases "tl letterBytes") auto

text \<open>
  Claim C8. Given a non-empty alphabet, every call of \<^verbatim>\<open>CreateResourceNameSuffix\<close>
  that returns a string returns one of length exactly 6 whose characters all belong to
  \<^verbatim>\<open>letterBytes\<close>; all the reads it made succeeded, and the characters are, in
  order, the letters chosen by the reads that were accepted, one read for each
  character (with an alphabet of one letter nothing is read). A call that returns an
  error returns the error of the last read it made. It returns an error if and only if
  the random source fails at a read the call makes: some read fails, the reads before
  it succeed, and fewer than six of them are accepted. It returns a string if and only
  if the source delivers six accepted reads with no failure before them.
\<close>

theorem CreateResourceNameSuffix_correct:
  assumes ne: "letterBytes \<noteq> []"
  shows "(\<forall>s m. CreateResourceNameSuffix letterBytes rd = Some (Inr s, m) \<longrightarrow>
            length s = 6 \<and> set s \<subseteq> set letterBytes \<and> (\<forall>p<m. \<exists>r. rd p = Inr r) \<and>
            (if length letterBytes = 1 then m = 0 \<and> s = replicate 6 (letterBytes ! 0)
             else s = map (\<lambda>r. letterBytes ! candidate (length letterBytes) r)
                        (filter (accepted (length letterBytes)) (entropy rd 0 m))))
       \<and> (\<forall>e m. CreateResourceNameSuffix letterBytes rd = Some (Inl e, m) \<longrightarrow>
            0 < m \<and> rd (m - 1) = Inl e \<and> (\<forall>p<m - 1. \<exists>r. rd p = Inr r))
       \<and> ((\<exists>e m. CreateResourceNameSuffix letterBytes rd = Some (Inl e, m)) \<longleftrightarrow>
            (1 < length letterBytes \<and>
             (\<exists>k e. rd k = Inl e \<and> (\<forall>p<k. \<exists>r. rd p = Inr r) \<and>
                    length (filter (accepted (length letterBytes)) (entropy rd 0 k)) < 6)))
       \<and> ((\<exists>s m. CreateResourceNameSuffix letterBytes rd = Some (Inr s, m)) \<longleftrightarrow>
            (length letterBytes = 1 \<or>
             (\<exists>m. (\<forall>p<m. \<exists>r. rd p = Inr r) \<and>
                  6 \<le> length (filter (accepted (length letterBytes)) (entropy rd 0 m)))))"
proof (cases rule: letterBytes_cases[OF ne])
  case 1
  let ?s0 = "replicate 6 (CHR 0x00)"
  have r: "CreateResourceNameSuffix letterBytes rd = Some (Inr (replicate 6 (letterBytes ! 0)), 0)"
    using suffix_loop_single[OF 1, of 0 ?s0 rd 0] by (simp add: CreateResourceNameSuffix_def)
  have "letterBytes ! 0 \<in> set letterBytes" using ne by simp
  then have sub: "set (replicate 6 (letterBytes ! 0)) \<subseteq> set letterBytes" by simp
  show ?thesis using r 1 sub by simp
next
  case 2
  let ?n = "length letterBytes"
  let ?s0 = "replicate 6 (CHR 0x00)"
  let ?f = "\<lambda>r. letterBytes ! candidate ?n r"
  have n1: "?n \<noteq> 1" "1 < ?n" using 2 by simp_all
  have sound: "\<And>y. CreateResourceNameSuffix letterBytes rd = Some y \<Longrightarrow>
                 suffix_read letterBytes rd 0 ?s0 0 y"
    using suffix_loop_sound[of letterBytes rd 0 ?s0 0] 2 by (simp add: CreateResourceNameSuffix_def)
  have c1: "\<forall>s m. CreateResourceNameSuffix letterBytes rd = Some (Inr s, m) \<longrightarrow>
            length s = 6 \<and> set s \<subseteq> set letterBytes \<and> (\<forall>p<m. \<exists>r. rd p = Inr r) \<and>
            s = map ?f (filter (accepted ?n) (entropy rd 0 m)) \<and>
            length (filter (accepted ?n) (entropy rd 0 m)) = 6"
  proof (intro allI impI)
    fix s m assume a: "CreateResourceNameSuffix letterBytes rd = Some (Inr s, m)"
    from sound[OF a] have l: "length s = 6" and rd: "\<forall>p<m. \<exists>r. rd p = Inr r"
      and s: "s = map ?f (filter (accepted ?n) (entropy rd 0 m))"
      and c: "length (filter (accepted ?n) (entropy rd 0 m)) = 6"
      by (simp_all add: suffix_read_def)
    have "set (map ?f (filter (accepted ?n) (entropy rd 0 m))) \<subseteq> set letterBytes"
      by auto
    with l rd s c show "length s = 6 \<and> set s \<subseteq> set letterBytes \<and> (\<forall>p<m. \<exists>r. rd p = Inr r) \<and>
            s = map ?f (filter (accepted ?n) (entropy rd 0 m)) \<and>
            length (filter (accepted ?n) (entropy rd 0 m)) = 6" by simp
  qed
  have c2: "\<forall>e m. CreateResourceNameSuffix letterBytes rd = Some (Inl e, m) \<longrightarrow>
            0 < m \<and> rd (m - 1) = Inl e \<and> (\<forall>p<m - 1. \<exists>r. rd p = Inr r) \<and>
            length (filter (accepted ?n) (entropy rd 0 (m - 1))) < 6"
  proof (intro allI impI)
    fix e m assume a: "CreateResourceNameSuffix letterBytes rd = Some (Inl e, m)"
    from sound[OF a] show "0 < m \<and> rd (m - 1) = Inl e \<and> (\<forall>p<m - 1. \<exists>r. rd p = Inr r) \<and>
            length (filter (accepted ?n) (entropy rd 0 (m - 1))) < 6"
      by (simp add: suffix_read_def)
  qed
  have c3: "(\<exists>e m. CreateResourceNameSuffix letterBytes rd = Some (Inl e, m)) \<longleftrightarrow>
            (\<exists>k e. rd k = Inl e \<and> (\<forall>p<k. \<exists>r. rd p = Inr r) \<and>
                   length (filter (accepted ?n) (entropy rd 0 k)) < 6)"
  proof
    assume "\<exists>e m. CreateResourceNameSuffix letterBytes rd = Some (Inl e, m)"
    then obtain e m where "CreateResourceNameSuffix letterBytes rd = Some (Inl e, m)" by blast
    with c2 have "rd (m - 1) = Inl e \<and> (\<forall>p<m - 1. \<exists>r. rd p = Inr r) \<and>
            length (filter (accepted ?n) (entropy rd 0 (m - 1))) < 6" by blast
    then show "\<exists>k e. rd k = Inl e \<and> (\<forall>p<k. \<exists>r. rd p = Inr r) \<and>
                   length (filter (accepted ?n) (entropy rd 0 k)) < 6" by blast
  next
    assume "\<exists>k e. rd k = Inl e \<and> (\<forall>p<k. \<exists>r. rd p = Inr r) \<and>
                   length (filter (accepted ?n) (entropy rd 0 k)) < 6"
    then obtain k e where k: "rd k = Inl e" "\<forall>p<k. \<exists>r. rd p = Inr r"
      "length (filter (accepted ?n) (entropy rd 0 k)) < 6" by blast
    have "suffix_loop letterBytes rd 0 ?s0 0 = Some (Inl e, Suc k)"
      using suffix_loop_returns_error[OF 2, of rd k e 0 0 ?s0] k by simp
    then show "\<exists>e m. CreateResourceNameSuffix letterBytes rd = Some (Inl e, m)"
      by (auto simp: CreateResourceNameSuffix_def)
  qed
  have c4: "(\<exists>s m. CreateResourceNameSuffix letterBytes rd = Some (Inr s, m)) \<longleftrightarrow>
            (\<exists>m. (\<forall>p<m. \<exists>r. rd p = Inr r) \<and>
                 6 \<le> length (filter (accepted ?n) (entropy rd 0 m)))"
  proof
    assume "\<exists>s m. CreateResourceNameSuffix letterBytes rd = Some (Inr s, m)"
    then obtain s m where "CreateResourceNameSuffix letterBytes rd = Some (Inr s, m)" by blast
    with c1 have "(\<forall>p<m. \<exists>r. rd p = Inr r) \<and>
                  length (filter (accepted ?n) (entropy rd 0 m)) = 6" by blast
    then show "\<exists>m. (\<forall>p<m. \<exists>r. rd p = Inr r) \<and>
                 6 \<le> length (filter (accepted ?n) (entropy rd 0 m))" by auto
  next
    assume "\<exists>m. (\<forall>p<m. \<exists>r. rd p = Inr r) \<and>
                 6 \<le> length (filter (accepted ?n) (entropy rd 0 m))"
    then obtain m where m: "\<forall>p<m. \<exists>r. rd p = Inr r"
      "6 \<le> length (filter (accepted ?n) (entropy rd 0 m))" by blast
    have "\<exists>t m'. suffix_loop letterBytes rd 0 ?s0 0 = Some (Inr t, m')"
      using suffix_loop_returns_suffix[OF 2, of 0 ?s0 0 m rd] m by simp
    then show "\<exists>s m. CreateResourceNameSuffix letterBytes rd = Some (Inr s, m)"
      by (simp add: CreateResourceNameSuffix_def)
  qed
  show ?thesis
  proof (intro conjI)
    show "\<forall>s m. CreateResourceNameSuffix letterBytes rd = Some (Inr s, m) \<longrightarrow>
            length s = 6 \<and> set s \<subseteq> set letterBytes \<and> (\<forall>p<m. \<exists>r. rd p = Inr r) \<and>
            (if length letterBytes = 1 then m = 0 \<and> s = replicate 6 (letterBytes ! 0)
             else s = map ?f (filter (accepted ?n) (entropy rd 0 m)))"
      using c1 n1 by simp
    show "\<forall>e m. CreateResourceNameSuffix letterBytes rd = Some (Inl e, m) \<longrightarrow>
            0 < m \<and> rd (m - 1) = Inl e \<and> (\<forall>p<m - 1. \<exists>r. rd p = Inr r)"
      using c2 by blast
    show "(\<exists>e m. CreateResourceNameSuffix letterBytes rd = Some (Inl e, m)) \<longleftrightarrow>
            (1 < ?n \<and> (\<exists>k e. rd k = Inl e \<and> (\<forall>p<k. \<exists>r. rd p = Inr r) \<and>
                    length (filter (accepted ?n) (entropy rd 0 k)) < 6))"
      using c3 n1 by simp
    show "(\<exists>s m. CreateResourceNameSuffix letterBytes rd = Some (Inr s, m)) \<longleftrightarrow>
            (?n = 1 \<or> (\<exists>m. (\<forall>p<m. \<exists>r. rd p = Inr r) \<and>
                  6 \<le> length (filter (accepted ?n) (entropy rd 0 m))))"
      using c4 n1 by simp
  qed
qed

theorem CreateResourceNameSuffix_correct_witness:
  "''abcdefghijklmnopqrstuvwxyz'' \<noteq> [] \<and>
   CreateResourceNameSuffix ''abcdefghijklmnopqrstuvwxyz'' example_reader = Some (Inr ''dkrygn'', 7) \<and>
   length ''dkrygn'' = 6 \<and> set ''dkrygn'' \<subseteq> set ''abcdefghijklmnopqrstuvwxyz'' \<and>
   example_reader 4 = Inr 31 \<and> \<not> accepted 26 31"
proof -
  have ne: "''abcdefghijklmnopqrstuvwxyz'' \<noteq> []" by simp
  have ev: "CreateResourceNameSuffix ''abcdefghijklmnopqrstuvwxyz'' example_reader =
              Some (Inr ''dkrygn'', 7)"
    by code_simp
  have rej: "example_reader 4 = Inr 31 \<and> \<not> accepted 26 31" by code_simp
  from CreateResourceNameSuffix_correct [OF ne, of example_reader] ev
  have "length ''dkrygn'' = 6 \<and> set ''dkrygn'' \<subseteq> set ''abcdefghijklmnopqrstuvwxyz''"
    by blast
  with ne ev rej show ?thesis by simp
qed

text \<open>
  With the fifth read rejected, a seventh read is made; when it fails, so does the call.
\<close>

lemma CreateResourceNameSuffix_late_failure:
  "CreateResourceNameSuffix ''abcdefghijklmnopqrstuvwxyz'' late_failing_reader =
     Some (Inl (Failure ''entropy source unavailable''), 7)"
  by code_simp

subsection \<open>Helm\<close>

text \<open>
  Claim C1 says that on an OpenShift cluster \<^verbatim>\<open>checkHelmVersion\<close> returns
  \<^verbatim>\<open>nil\<close> without a \<^verbatim>\<open>helm\<close> binary. On the OpenShift cluster seen from a host
  without \<^verbatim>\<open>helm\<close>, \<^verbatim>\<open>validateHelmBinary\<close> returns \<^verbatim>\<open>nil\<close>, and
  \<^verbatim>\<open>checkHelmVersion\<close> goes on to ask for the version of \<^verbatim>\<open>helm\<close> and returns the
  error of that call.
\<close>

theorem checkHelmVersion_openshift_without_helm:
  "validateHelmBinary openshift_host_without_helm ''helm'' = None \<and>
   checkHelmVersion openshift_host_without_helm ''helm'' =
     Some (Failure ''exec: helm: executable file not found in $PATH'')"
  by (simp add: checkHelmVersion_def validateHelmBinary_def openshift_host_without_helm_def)

lemma checkHelmVersion_openshift:
  "CheckIsOpenshift env \<Longrightarrow> checkHelmVersion env b =
      (case GetHelmVersion env (HelmBinaryName env) of
             Inl err \<Rightarrow> Some err
           | Inr curVersion \<Rightarrow> validateHelmVersion env curVersion)"
  by (simp add: checkHelmVersion_def validateHelmBinary_def)

subsection \<open>RBAC\<close>

lemma rbac_loop_parse_failure:
  assumes "\<forall>a \<in> set pre. \<exists>gv. ParseGroupVersion a = Inr gv \<and> \<not> (Group gv = apiGroup \<and> Version gv = apiVersion)"
    and "ParseGroupVersion bad = Inl e"
  shows "rbac_loop apiGroup apiVersion (pre @ bad # post) = Inl None"
  using assms by (induction pre) auto

text \<open>
  Claim C10. If, among the group-version strings of the server, one fails to parse
  before any string that is the RBAC group and version, \<^verbatim>\<open>checkKubernetesRBAC\<close>
  returns \<^verbatim>\<open>nil\<close>, whatever follows it in the list: also when the RBAC group and
  version are absent from the server's groups.
\<close>

theorem checkKubernetesRBAC_parse_failure_passes:
  assumes sg: "ServerGroups = (Some l, err)"
    and err: "err = None \<or> (\<exists>e. err = Some e \<and> IsGroupDiscoveryFailedError e)"
    and split: "ExtractGroupVersions l = pre @ bad # post"
    and pre: "\<forall>a \<in> set pre. \<exists>gv. ParseGroupVersion a = Inr gv \<and>
                 \<not> (Group gv = apiGroup \<and> Version gv = apiVersion)"
    and bad: "ParseGroupVersion bad = Inl e"
  shows "checkKubernetesRBAC ServerGroups apiGroup apiVersion = None"
proof -
  have "rbac_loop apiGroup apiVersion (ExtractGroupVersions l) = Inl None"
    using rbac_loop_parse_failure[OF pre bad] split by simp
  then show ?thesis using sg err by (auto simp: checkKubernetesRBAC_def)
qed

theorem checkKubernetesRBAC_parse_failure_passes_witness:
  "checkKubernetesRBAC
     (Some [\<lparr>Name = [], Versions = [''v1'']\<rparr>, \<lparr>Name = ''apps'', Versions = [''apps/v1/extra'']\<rparr>], None)
     ''rbac.authorization.k8s.io'' ''v1'' = None \<and>
   ''rbac.authorization.k8s.io/v1'' \<notin> set (ExtractGroupVersions
      [\<lparr>Name = [], Versions = [''v1'']\<rparr>, \<lparr>Name = ''apps'', Versions = [''apps/v1/extra'']\<rparr>])"
proof -
  have a: "ExtractGroupVersions [\<lparr>Name = [], Versions = [''v1'']\<rparr>, \<lparr>Name = ''apps'', Versions = [''apps/v1/extra'']\<rparr>]
     = [''v1''] @ ''apps/v1/extra'' # []" by (simp add: ExtractGroupVersions_def)
  have b: "\<forall>a \<in> set [''v1'']. \<exists>gv. ParseGroupVersion a = Inr gv \<and>
                 \<not> (Group gv = ''rbac.authorization.k8s.io'' \<and> Version gv = ''v1'')"
    by (simp add: ParseGroupVersion_def)
  have c: "ParseGroupVersion ''apps/v1/extra'' = Inl (Errorf ''unexpected GroupVersion string: apps/v1/extra'')"
    by (simp add: ParseGroupVersion_def)
  have d: "(None :: error option) = None \<or> (\<exists>e. (None :: error option) = Some e \<and> IsGroupDiscoveryFailedError e)" by simp
  show ?thesis
    using checkKubernetesRBAC_parse_failure_passes[OF refl d a b c] a by simp
qed

subsection \<open>Storage class and snapshot class\<close>

lemma vssc_loop_eq:
  "vssc_loop p items acc =
     (case find (\<lambda>v. driver_is p v \<and> is_default_class v) items of
        Some v \<Rightarrow> Inl (GetName v)
      | None \<Rightarrow> Inr (if filter (driver_is p) items = [] then acc
                      else GetName (last (filter (driver_is p) items))))"
  by (induction items arbitrary: acc) (auto split: option.splits)

lemma find_default_matches:
  "find (\<lambda>v. driver_is p v \<and> is_default_class v) items = Some v \<Longrightarrow> v \<in> set items \<and> driver_is p v"
  by (auto simp: find_Some_iff)

lemma checkSnapshotclassForProvisioner_cases:
  assumes pref: "GetServerPreferredVersionForGroup c (StorageSnapshotGroup c) = Inr prefVersion"
    and lst: "runtimeClient_List c (StorageSnapshotGroup c, prefVersion, VolumeSnapshotClassKind c) = Inr Items"
    and ne: "Items \<noteq> []"
    and names: "\<forall>vssc \<in> set Items. driver_is provisioner vssc \<longrightarrow> GetName vssc \<noteq> []"
  shows "(case find (\<lambda>v. driver_is provisioner v \<and> is_default_class v) Items of
            Some v \<Rightarrow> checkSnapshotclassForProvisioner c provisioner = Inr (GetName v)
          | None \<Rightarrow>
              if filter (driver_is provisioner) Items = []
              then checkSnapshotclassForProvisioner c provisioner =
                     Inl (Errorf (''no matching volume snapshot class having driver '' @
                                  ''same as provisioner - '' @ provisioner @ '' found on cluster''))
              else checkSnapshotclassForProvisioner c provisioner =
                     Inr (GetName (last (filter (driver_is provisioner) Items))))
       \<and> ((\<exists>err. checkSnapshotclassForProvisioner c provisioner = Inl err) \<longleftrightarrow>
            \<not> (\<exists>vssc \<in> set Items. driver_is provisioner vssc))
       \<and> (\<forall>n. checkSnapshotclassForProvisioner c provisioner = Inr n \<longrightarrow>
            (\<exists>vssc \<in> set Items. driver_is provisioner vssc \<and> GetName vssc = n))"
proof -
  let ?ms = "filter (driver_is provisioner) Items"
  have unfold: "checkSnapshotclassForProvisioner c provisioner =
        (case vssc_loop provisioner Items [] of
           Inl n \<Rightarrow> Inr n
         | Inr sscName \<Rightarrow>
             if sscName = []
             then Inl (Errorf (''no matching volume snapshot class having driver '' @
                               ''same as provisioner - '' @ provisioner @ '' found on cluster''))
             else Inr sscName)"
    using pref lst ne by (simp add: checkSnapshotclassForProvisioner_def)
  have lastname: "?ms \<noteq> [] \<Longrightarrow> GetName (last ?ms) \<noteq> [] \<and> last ?ms \<in> set Items \<and> driver_is provisioner (last ?ms)"
  proof -
    assume a: "?ms \<noteq> []"
    then have "last ?ms \<in> set ?ms" by (rule last_in_set)
    then show ?thesis using names by auto
  qed
  show ?thesis
  proof (cases "find (\<lambda>v. driver_is provisioner v \<and> is_default_class v) Items")
    case None
    show ?thesis
    proof (cases "?ms = []")
      case True
      then have nomatch: "\<not> (\<exists>vssc \<in> set Items. driver_is provisioner vssc)"
        by (auto simp: filter_empty_conv)
      have "checkSnapshotclassForProvisioner c provisioner =
          Inl (Errorf (''no matching volume snapshot class having driver '' @
                       ''same as provisioner - '' @ provisioner @ '' found on cluster''))"
        using None True by (simp add: unfold vssc_loop_eq)
      then show ?thesis using None True nomatch by simp
    next
      case False
      have r: "checkSnapshotclassForProvisioner c provisioner = Inr (GetName (last ?ms))"
        using None False lastname by (simp add: unfold vssc_loop_eq)
      have "\<exists>vssc \<in> set Items. driver_is provisioner vssc" using lastname False by blast
      then show ?thesis using None False r lastname by auto
    qed
  next
    case (Some v)
    have r: "checkSnapshotclassForProvisioner c provisioner = Inr (GetName v)"
      using Some by (simp add: unfold vssc_loop_eq)
    have "v \<in> set Items \<and> driver_is provisioner v" using Some by (rule find_default_matches)
    then show ?thesis using Some r by auto
  qed
qed

text \<open>
  Claim C2, amended. For every provisioner and every non-empty list of volume snapshot
  classes returned at the preferred snapshot API version, in which the classes whose
  driver equals the provisioner have non-empty names,
  \<^verbatim>\<open>checkSnapshotclassForProvisioner\<close> returns the name of a class whose driver equals
  the provisioner, and returns an error exactly when no class's driver equals the
  provisioner. When none of the classes with this driver is marked as the default
  (neither by the annotation nor by the top-level field), the name returned is the one
  of the last class of the list that has this driver. Which class is named when one is
  marked as the default is not stated.
\<close>

theorem checkSnapshotclassForProvisioner_result:
  assumes pref: "GetServerPreferredVersionForGroup c (StorageSnapshotGroup c) = Inr prefVersion"
    and lst: "runtimeClient_List c (StorageSnapshotGroup c, prefVersion, VolumeSnapshotClassKind c) = Inr Items"
    and ne: "Items \<noteq> []"
    and names: "\<forall>vssc \<in> set Items. driver_is provisioner vssc \<longrightarrow> GetName vssc \<noteq> []"
  shows "(\<forall>n. checkSnapshotclassForProvisioner c provisioner = Inr n \<longrightarrow>
            (\<exists>vssc \<in> set Items. driver_is provisioner vssc \<and> GetName vssc = n))
       \<and> ((\<exists>err. checkSnapshotclassForProvisioner c provisioner = Inl err) \<longleftrightarrow>
            \<not> (\<exists>vssc \<in> set Items. driver_is provisioner vssc))
       \<and> ((\<forall>vssc \<in> set Items. driver_is provisioner vssc \<longrightarrow>
               \<not> annotated_default vssc \<and> \<not> is_default_class vssc) \<longrightarrow>
           (\<exists>vssc \<in> set Items. driver_is provisioner vssc) \<longrightarrow>
           checkSnapshotclassForProvisioner c provisioner =
             Inr (GetName (last (filter (driver_is provisioner) Items))))"
proof -
  note cases = checkSnapshotclassForProvisioner_cases [OF pref lst ne names]
  have last: "checkSnapshotclassForProvisioner c provisioner =
                Inr (GetName (last (filter (driver_is provisioner) Items)))"
    if nodef: "\<forall>vssc \<in> set Items. driver_is provisioner vssc \<longrightarrow>
                 \<not> annotated_default vssc \<and> \<not> is_default_class vssc"
      and some: "\<exists>vssc \<in> set Items. driver_is provisioner vssc"
  proof -
    have none: "find (\<lambda>v. driver_is provisioner v \<and> is_default_class v) Items = None"
      using nodef by (auto simp: find_None_iff)
    have "filter (driver_is provisioner) Items \<noteq> []"
      using some by (auto simp: filter_empty_conv)
    with cases none show ?thesis by simp
  qed
  from cases last show ?thesis by blast
qed

theorem checkSnapshotclassForProvisioner_result_witness:
  "[snapclass ''snap-a'' ''csi.example.com'', snapclass ''snap-b'' ''csi.example.com''] \<noteq> [] \<and>
   checkSnapshotclassForProvisioner (example_cluster [snapclass ''snap-a'' ''csi.example.com'', snapclass ''snap-b'' ''csi.example.com''] []) ''csi.example.com'' = Inr ''snap-b''"
proof -
  let ?c = "example_cluster [snapclass ''snap-a'' ''csi.example.com'', snapclass ''snap-b'' ''csi.example.com''] []"
  have pref: "GetServerPreferredVersionForGroup ?c (StorageSnapshotGroup ?c) = Inr ''v1''"
    by (simp add: example_cluster_def)
  have lst: "runtimeClient_List ?c (StorageSnapshotGroup ?c, ''v1'', VolumeSnapshotClassKind ?c) =
               Inr [snapclass ''snap-a'' ''csi.example.com'', snapclass ''snap-b'' ''csi.example.com'']"
    by (simp add: example_cluster_def)
  have ne: "[snapclass ''snap-a'' ''csi.example.com'', snapclass ''snap-b'' ''csi.example.com''] \<noteq> []" by simp
  have names: "\<forall>vssc \<in> set [snapclass ''snap-a'' ''csi.example.com'', snapclass ''snap-b'' ''csi.example.com'']. driver_is ''csi.example.com'' vssc \<longrightarrow> GetName vssc \<noteq> []"
    by (simp add: snapclass_def GetName_def)
  have nodef: "\<forall>vssc \<in> set [snapclass ''snap-a'' ''csi.example.com'', snapclass ''snap-b'' ''csi.example.com'']. driver_is ''csi.example.com'' vssc \<longrightarrow>
                 \<not> annotated_default vssc \<and> \<not> is_default_class vssc"
    by (simp add: snapclass_def annotated_default_def)
  have some: "\<exists>vssc \<in> set [snapclass ''snap-a'' ''csi.example.com'', snapclass ''snap-b'' ''csi.example.com'']. driver_is ''csi.example.com'' vssc"
    by (simp add: snapclass_def)
  from checkSnapshotclassForProvisioner_result [OF pref lst ne names] nodef some
  have "checkSnapshotclassForProvisioner ?c ''csi.example.com'' =
          Inr (GetName (last (filter (driver_is ''csi.example.com'') [snapclass ''snap-a'' ''csi.example.com'', snapclass ''snap-b'' ''csi.example.com''])))"
    by blast
  then show ?thesis by (simp add: snapclass_def GetName_def)
qed

text \<open>
  Two classes with the driver of the provisioner, neither marked as the default in
  either way: the name returned is the one of the second, not of the first.
\<close>

theorem checkSnapshotclassForProvisioner_first_match_counterexample:
  "checkSnapshotclassForProvisioner (example_cluster [snapclass ''snap-a'' ''csi.example.com'', snapclass ''snap-b'' ''csi.example.com''] []) ''csi.example.com'' = Inr ''snap-b'' \<and>
   GetName (hd (filter (driver_is ''csi.example.com'') [snapclass ''snap-a'' ''csi.example.com'', snapclass ''snap-b'' ''csi.example.com''])) = ''snap-a'' \<and>
   \<not> is_default_class (snapclass ''snap-a'' ''csi.example.com'') \<and> \<not> is_default_class (snapclass ''snap-b'' ''csi.example.com'') \<and>
   \<not> annotated_default (snapclass ''snap-a'' ''csi.example.com'') \<and> \<not> annotated_default (snapclass ''snap-b'' ''csi.example.com'')"
  by (simp add: checkSnapshotclassForProvisioner_def example_cluster_def snapclass_def GetName_def
        annotated_default_def)

text \<open>
  What the comparison of the top-level field does to a class marked as the default by
  its annotation: it is not preferred.
\<close>

lemma annotated_default_not_preferred:
  "annotated_default (annotated_snapclass ''snap-a'' ''csi.example.com'') \<and>
   checkSnapshotclassForProvisioner
     (example_cluster [annotated_snapclass ''snap-a'' ''csi.example.com'', snapclass ''snap-b'' ''csi.example.com''] [])
     ''csi.example.com'' = Inr ''snap-b''"
  by (simp add: checkSnapshotclassForProvisioner_def example_cluster_def snapclass_def
        annotated_snapclass_def GetName_def annotated_default_def)

text \<open>
  Claim C6. With a non-empty \<^verbatim>\<open>SnapshotClass\<close>, \<^verbatim>\<open>checkStorageSnapshotClass\<close>
  succeeds if and only if the named storage class is found, the named snapshot class
  is found, and the driver of the snapshot class equals the provisioner of the storage
  class; when both are found and the driver differs, the error names the snapshot class
  and the provisioner.
\<close>

theorem checkStorageSnapshotClass_explicit:
  assumes "SnapshotClass o_run \<noteq> []"
  shows "(fst (checkStorageSnapshotClass c o_run v0) = None \<longleftrightarrow>
            (\<exists>sc vssc. StorageClasses_Get c (StorageClass o_run) = Inr sc \<and>
                       clusterHasVolumeSnapshotClass c (SnapshotClass o_run) = Inr vssc \<and>
                       map_of vssc ''driver'' = Some (JString (Provisioner sc))))
       \<and> (\<forall>sc vssc. StorageClasses_Get c (StorageClass o_run) = Inr sc \<longrightarrow>
                     clusterHasVolumeSnapshotClass c (SnapshotClass o_run) = Inr vssc \<longrightarrow>
                     map_of vssc ''driver'' \<noteq> Some (JString (Provisioner sc)) \<longrightarrow>
             fst (checkStorageSnapshotClass c o_run v0) =
               Some (Errorf (''volume snapshot class - '' @ SnapshotClass o_run @
                       '' driver does not match with given StorageClass's provisioner='' @
                       Provisioner sc)))"
  using assms
  by (auto simp: checkStorageSnapshotClass_def Let_def split: sum.splits)

theorem checkStorageSnapshotClass_explicit_witness:
  "SnapshotClass (example_options ''standard'' ''snap-other'') \<noteq> [] \<and>
   fst (checkStorageSnapshotClass
          (example_cluster [snapclass ''snap-other'' ''other.example.com''] [])
          (example_options ''standard'' ''snap-other'') []) =
     Some (Errorf (''volume snapshot class - snap-other driver does not match with '' @
                   ''given StorageClass's provisioner=csi.example.com''))"
proof -
  let ?c = "example_cluster [snapclass ''snap-other'' ''other.example.com''] []"
  let ?o = "example_options ''standard'' ''snap-other''"
  have h: "SnapshotClass ?o \<noteq> []" by (simp add: example_options_def)
  have sc: "StorageClasses_Get ?c (StorageClass ?o) = Inr \<lparr>Provisioner = ''csi.example.com''\<rparr>"
    by (simp add: example_cluster_def example_options_def)
  have vssc: "clusterHasVolumeSnapshotClass ?c (SnapshotClass ?o) =
                Inr (snapclass ''snap-other'' ''other.example.com'')"
    by (simp add: example_cluster_def example_options_def snapclass_def GetName_def)
  have ne: "map_of (snapclass ''snap-other'' ''other.example.com'') ''driver'' \<noteq>
              Some (JString (Provisioner \<lparr>Provisioner = ''csi.example.com''\<rparr>))"
    by (simp add: snapclass_def)
  from checkStorageSnapshotClass_explicit [OF h, of ?c "[]"] sc vssc ne h
  show ?thesis by (simp add: example_options_def)
qed

subsection \<open>CSI\<close>

lemma csi_loop_log:
  "snd (csi_loop c u apis n lg) = lg @ map (csi_line c u) (takeWhile (csi_known c u) apis)"
  by (induction apis arbitrary: n lg) (auto simp: Let_def IsNotFound_opt_def)

lemma csi_loop_count:
  "fst (csi_loop c u apis n lg) = Inr m \<longleftrightarrow>
     (list_all (csi_known c u) apis \<and> m = n + length (filter (\<lambda>api. runtimeClient_Get c u api = None) apis))"
  by (induction apis arbitrary: n lg) (auto simp: Let_def IsNotFound_opt_def)

lemma filter_full: "length (filter P xs) = length xs \<longleftrightarrow> list_all P xs"
proof (induction xs)
  case Nil
  show ?case by simp
next
  case (Cons a xs)
  have le: "length (filter P xs) \<le> length xs" by (rule length_filter_le)
  show ?case
  proof (cases "P a")
    case True
    then show ?thesis using Cons by simp
  next
    case False
    have "length (filter P xs) \<noteq> Suc (length xs)" using le by arith
    then show ?thesis using False by simp
  qed
qed

text \<open>
  Claim C5. \<^verbatim>\<open>checkCSI\<close> returns \<^verbatim>\<open>nil\<close> if and only if the preferred version of
  the API-extensions group is obtained and every name of \<^verbatim>\<open>CsiApis\<close> is found at it
  (the counter then equals the length of \<^verbatim>\<open>CsiApis\<close>). The loop visits the names in
  order up to the first lookup that fails otherwise than by NotFound, logging one line
  for each: a name not found does not end the loop, and is logged as not found.
\<close>

theorem checkCSI_correct:
  "(fst (checkCSI c) = None \<longleftrightarrow>
      (case GetServerPreferredVersionForGroup c (apiExtenstionsGroup c) of
         Inl err \<Rightarrow> False
       | Inr prefVersion \<Rightarrow>
           list_all (\<lambda>api. runtimeClient_Get c
                             (apiExtenstionsGroup c, prefVersion, customResourceDefinition c) api = None)
                    (CsiApis c)))
   \<and> (\<forall>prefVersion. GetServerPreferredVersionForGroup c (apiExtenstionsGroup c) = Inr prefVersion \<longrightarrow>
         (fst (checkCSI c) = None \<longleftrightarrow>
          fst (csi_loop c (apiExtenstionsGroup c, prefVersion, customResourceDefinition c)
                 (CsiApis c) 0 []) = Inr (length (CsiApis c))))
   \<and> (\<forall>prefVersion. GetServerPreferredVersionForGroup c (apiExtenstionsGroup c) = Inr prefVersion \<longrightarrow>
         snd (checkCSI c) =
           map (csi_line c (apiExtenstionsGroup c, prefVersion, customResourceDefinition c))
             (takeWhile (csi_known c (apiExtenstionsGroup c, prefVersion, customResourceDefinition c))
                (CsiApis c)))
   \<and> (\<forall>prefVersion. GetServerPreferredVersionForGroup c (apiExtenstionsGroup c) = Inr prefVersion \<longrightarrow>
         list_all (csi_known c (apiExtenstionsGroup c, prefVersion, customResourceDefinition c)) (CsiApis c) \<longrightarrow>
         (\<forall>api \<in> set (CsiApis c).
            IsNotFound_opt (runtimeClient_Get c
               (apiExtenstionsGroup c, prefVersion, customResourceDefinition c) api) \<longrightarrow>
            Logf ErrorLevel ''%s Not found CSI API - %s\<newline>'' [Cross, Str api] \<in> set (snd (checkCSI c))))"
proof (cases "GetServerPreferredVersionForGroup c (apiExtenstionsGroup c)")
  case (Inl err)
  then show ?thesis by (simp add: checkCSI_def)
next
  case (Inr prefVersion)
  let ?u = "(apiExtenstionsGroup c, prefVersion, customResourceDefinition c)"
  let ?found = "\<lambda>api. runtimeClient_Get c ?u api = None"
  obtain r lg where loop: "csi_loop c ?u (CsiApis c) 0 [] = (r, lg)" by (cases "csi_loop c ?u (CsiApis c) 0 []")
  have lg: "lg = map (csi_line c ?u) (takeWhile (csi_known c ?u) (CsiApis c))"
    using csi_loop_log[of c ?u "CsiApis c" 0 "[]"] loop by simp
  have cnt: "\<And>m. r = Inr m \<longleftrightarrow>
       (list_all (csi_known c ?u) (CsiApis c) \<and> m = length (filter ?found (CsiApis c)))"
    using csi_loop_count[of c ?u "CsiApis c" 0 "[]"] loop by simp
  have res: "checkCSI c =
      (case r of Inl err \<Rightarrow> (Some err, lg)
       | Inr apiFoundCnt \<Rightarrow>
           if apiFoundCnt \<noteq> length (CsiApis c)
           then (Some (Errorf ''some CSI APIs not found in cluster. Check logs for details''), lg)
           else (None, lg))"
    using Inr loop by (simp add: checkCSI_def)
  have found_known: "list_all ?found (CsiApis c) \<Longrightarrow> list_all (csi_known c ?u) (CsiApis c)"
    by (simp add: list_all_iff)
  have c1: "fst (checkCSI c) = None \<longleftrightarrow> list_all ?found (CsiApis c)"
  proof (cases r)
    case (Inl err)
    then have "\<not> list_all (csi_known c ?u) (CsiApis c)" using cnt by auto
    then have "\<not> list_all ?found (CsiApis c)" using found_known by blast
    then show ?thesis using Inl res by simp
  next
    case (Inr m)
    then have m: "m = length (filter ?found (CsiApis c))" using cnt by simp
    show ?thesis using Inr res m filter_full[of ?found "CsiApis c"] by auto
  qed
  have c0: "fst (checkCSI c) = None \<longleftrightarrow> fst (csi_loop c ?u (CsiApis c) 0 []) = Inr (length (CsiApis c))"
    using res loop by (auto split: sum.splits)
  have c2: "snd (checkCSI c) = lg" using res by (simp split: sum.splits)
  have c3: "list_all (csi_known c ?u) (CsiApis c) \<Longrightarrow> api \<in> set (CsiApis c) \<Longrightarrow>
            IsNotFound_opt (runtimeClient_Get c ?u api) \<Longrightarrow>
            Logf ErrorLevel ''%s Not found CSI API - %s\<newline>'' [Cross, Str api] \<in> set (snd (checkCSI c))" for api
  proof -
    assume all: "list_all (csi_known c ?u) (CsiApis c)" and mem: "api \<in> set (CsiApis c)"
      and nf: "IsNotFound_opt (runtimeClient_Get c ?u api)"
    have tw: "takeWhile (csi_known c ?u) (CsiApis c) = CsiApis c"
      using all by (simp add: list_all_iff)
    have ne: "runtimeClient_Get c ?u api \<noteq> None" using nf by (auto simp: IsNotFound_opt_def split: option.splits)
    have "csi_line c ?u api \<in> set lg" using lg tw mem by simp
    then show ?thesis using ne c2 by simp
  qed
  show ?thesis using Inr c0 c1 c2 lg c3 by simp
qed

theorem checkCSI_correct_witness:
  "fst (checkCSI (example_cluster [] [''volumesnapshotclasses.snapshot.storage.k8s.io'', ''volumesnapshotcontents.snapshot.storage.k8s.io''])) \<noteq> None \<and>
   Logf ErrorLevel ''%s Not found CSI API - %s\<newline>''
     [Cross, Str ''volumesnapshots.snapshot.storage.k8s.io'']
     \<in> set (snd (checkCSI (example_cluster [] [''volumesnapshotclasses.snapshot.storage.k8s.io'', ''volumesnapshotcontents.snapshot.storage.k8s.io''])))"
proof -
  let ?c = "example_cluster [] [''volumesnapshotclasses.snapshot.storage.k8s.io'', ''volumesnapshotcontents.snapshot.storage.k8s.io'']"
  let ?u = "(apiExtenstionsGroup ?c, ''v1'', customResourceDefinition ?c)"
  have pref: "GetServerPreferredVersionForGroup ?c (apiExtenstionsGroup ?c) = Inr ''v1''"
    by (simp add: example_cluster_def)
  have known: "list_all (csi_known ?c ?u) (CsiApis ?c)"
    by (simp add: example_cluster_def IsNotFound_opt_def)
  have mem: "''volumesnapshots.snapshot.storage.k8s.io'' \<in> set (CsiApis ?c)"
    by (simp add: example_cluster_def)
  have absent: "IsNotFound_opt (runtimeClient_Get ?c ?u ''volumesnapshots.snapshot.storage.k8s.io'')"
    by (simp add: example_cluster_def IsNotFound_opt_def)
  have notall: "\<not> list_all (\<lambda>api. runtimeClient_Get ?c ?u api = None) (CsiApis ?c)"
    by (simp add: example_cluster_def)
  from checkCSI_correct [of ?c] pref known mem absent notall
  show ?thesis by auto
qed

subsection \<open>DNS resolution\<close>

text \<open>
  Claim C9. \<^verbatim>\<open>checkDNSResolution\<close> issues a deletion if and only if the creation of
  the pod, the wait for readiness, the read of the pod and the command run in it have
  all succeeded, and returns \<^verbatim>\<open>nil\<close> in exactly that case: on a failure it returns
  the error and deletes nothing. When the deletion itself fails the result is still
  \<^verbatim>\<open>nil\<close>, and the last thing done is to log the warning.
\<close>

theorem checkDNSResolution_delete_only_on_success:
  "(list_ex is_delete (snd (checkDNSResolution env execCommand podNameSuffix)) \<longleftrightarrow>
      dns_success_path env execCommand podNameSuffix)
   \<and> (fst (checkDNSResolution env execCommand podNameSuffix) = None \<longleftrightarrow>
      dns_success_path env execCommand podNameSuffix)
   \<and> (\<forall>err. Pods_Create env (createDNSPodSpec env podNameSuffix) = Some err \<longrightarrow>
         fst (checkDNSResolution env execCommand podNameSuffix) = Some err)
   \<and> (\<forall>err. Pods_Create env (createDNSPodSpec env podNameSuffix) = None \<longrightarrow>
         waitUntilPodCondition env (createDNSPodSpec env podNameSuffix) = Some err \<longrightarrow>
         fst (checkDNSResolution env execCommand podNameSuffix) = Some err)
   \<and> (\<forall>err. Pods_Create env (createDNSPodSpec env podNameSuffix) = None \<longrightarrow>
         waitUntilPodCondition env (createDNSPodSpec env podNameSuffix) = None \<longrightarrow>
         Pods_Get env (createDNSPodSpec env podNameSuffix) = Inl err \<longrightarrow>
         fst (checkDNSResolution env execCommand podNameSuffix) = Some err)
   \<and> (\<forall>p err. Pods_Create env (createDNSPodSpec env podNameSuffix) = None \<longrightarrow>
         waitUntilPodCondition env (createDNSPodSpec env podNameSuffix) = None \<longrightarrow>
         Pods_Get env (createDNSPodSpec env podNameSuffix) = Inr p \<longrightarrow>
         execInPod env p execCommand = Some err \<longrightarrow> 1 < length execCommand \<longrightarrow>
         fst (checkDNSResolution env execCommand podNameSuffix) =
           Some (Errorf (''not able to resolve DNS '' @ quoted (execCommand ! 1) @
                         '' service inside pods'')))
   \<and> (\<forall>p err. dns_success_path env execCommand podNameSuffix \<longrightarrow>
         Pods_Get env (createDNSPodSpec env podNameSuffix) = Inr p \<longrightarrow>
         deleteK8sResource env p = Some err \<longrightarrow>
         fst (checkDNSResolution env execCommand podNameSuffix) = None \<and>
         last (snd (checkDNSResolution env execCommand podNameSuffix)) =
           Logline (Logf WarnLevel ''Problem occurred deleting DNS pod - '%s' :: %s''
                      [Str p, Str (Error err)]))"
  by (auto simp: checkDNSResolution_def dns_success_path_def Let_def split: option.splits sum.splits)

theorem checkDNSResolution_delete_only_on_success_witness:
  "dns_success_path (example_dns_env (Some (Failure ''pods is forbidden''))) [''nslookup'', ''kubernetes.default''] ''dkryfm'' \<and>
   fst (checkDNSResolution (example_dns_env (Some (Failure ''pods is forbidden''))) [''nslookup'', ''kubernetes.default''] ''dkryfm'')
     = None \<and>
   list_ex is_delete
     (snd (checkDNSResolution (example_dns_env (Some (Failure ''pods is forbidden''))) [''nslookup'', ''kubernetes.default''] ''dkryfm'')) \<and>
   last (snd (checkDNSResolution (example_dns_env (Some (Failure ''pods is forbidden''))) [''nslookup'', ''kubernetes.default''] ''dkryfm''))
     = Logline (Logf WarnLevel ''Problem occurred deleting DNS pod - '%s' :: %s''
                  [Str ''test-dns-pod-dkryfm'', Str ''pods is forbidden''])"
proof -
  let ?env = "example_dns_env (Some (Failure ''pods is forbidden''))"
  have path: "dns_success_path ?env [''nslookup'', ''kubernetes.default''] ''dkryfm''"
    by (simp add: dns_success_path_def example_dns_env_def)
  have get: "Pods_Get ?env (createDNSPodSpec ?env ''dkryfm'') = Inr ''test-dns-pod-dkryfm''"
    by (simp add: example_dns_env_def)
  have del: "deleteK8sResource ?env ''test-dns-pod-dkryfm'' = Some (Failure ''pods is forbidden'')"
    by (simp add: example_dns_env_def)
  from checkDNSResolution_delete_only_on_success [of ?env "[''nslookup'', ''kubernetes.default'']" "''dkryfm''"] path get del
  show ?thesis by simp
qed

subsection \<open>The run of all checks\<close>

lemma calls_of_append: "calls_of (xs @ ys) = calls_of xs @ calls_of ys"
  by (induction xs rule: calls_of.induct) simp_all

lemma results_of_append: "results_of c (xs @ ys) = results_of c xs @ results_of c ys"
  by (induction c xs rule: results_of.induct) simp_all

lemma failures_of_append: "failures_of (xs @ ys) = failures_of xs @ failures_of ys"
  by (induction xs rule: failures_of.induct) simp_all

lemma cleanups_of_append: "cleanups_of (xs @ ys) = cleanups_of xs @ cleanups_of ys"
  by (induction xs rule: cleanups_of.induct) simp_all

lemma called_of_append: "called_of (xs @ ys) = called_of xs @ called_of ys"
  by (induction xs rule: called_of.induct) simp_all

lemma calls_of_called: "calls_of es = map fst (called_of es)"
  by (induction es rule: called_of.induct) simp_all

lemmas trace_append = calls_of_append results_of_append failures_of_append cleanups_of_append
  called_of_append

lemmas step_defs = kubectl_step_def clusterAccess_step_def helmVersion_step_def
  kubernetesVersion_step_def kubernetesRBAC_step_def storageSnapshotClass_step_def
  csi_step_def dnsResolution_step_def

lemma logf_facts:
  "world (logf lv fmt args s) = world s"
  "preflightStatus (logf lv fmt args s) = preflightStatus s"
  "storageSnapshotSuccess (logf lv fmt args s) = storageSnapshotSuccess s"
  "calls_of (events (logf lv fmt args s)) = calls_of (events s)"
  "results_of c (events (logf lv fmt args s)) = results_of c (events s)"
  "failures_of (events (logf lv fmt args s)) = failures_of (events s)"
  "cleanups_of (events (logf lv fmt args s)) = cleanups_of (events s)"
  "called_of (events (logf lv fmt args s)) = called_of (events s)"
  by (simp_all add: logf_def trace_append)

lemma invoke_facts:
  "fst (invoke c f s) = fst (f (world s))"
  "world (snd (invoke c f s)) = snd (f (world s))"
  "preflightStatus (snd (invoke c f s)) = preflightStatus s"
  "storageSnapshotSuccess (snd (invoke c f s)) = storageSnapshotSuccess s"
  "calls_of (events (snd (invoke c f s))) = calls_of (events s) @ [c]"
  "results_of c' (events (snd (invoke c f s))) =
     results_of c' (events s) @ (if c = c' then [fst (f (world s))] else [])"
  "cleanups_of (events (snd (invoke c f s))) = cleanups_of (events s)"
  "called_of (events (snd (invoke c f s))) = called_of (events s) @ [(c, fst (f (world s)))]"
  by (simp_all add: invoke_def trace_append split_def Let_def)

lemma invoke_failures:
  "failures_of (events (snd (invoke c f s))) =
     failures_of (events s) @ (if fst (f (world s)) = None then [] else [c])"
  by (cases "fst (f (world s))") (simp_all add: invoke_def trace_append split_def Let_def)

lemma step_calls:
  "calls_of (events (kubectl_step ck s)) = calls_of (events s) @ [Kubectl]"
  "calls_of (events (clusterAccess_step ck s)) = calls_of (events s) @ [ClusterAccess]"
  "calls_of (events (helmVersion_step ck s)) = calls_of (events s) @ [HelmVersion]"
  "calls_of (events (kubernetesVersion_step ck s)) = calls_of (events s) @ [KubernetesVersion]"
  "calls_of (events (kubernetesRBAC_step ck s)) = calls_of (events s) @ [KubernetesRBAC]"
  "calls_of (events (storageSnapshotClass_step ck s)) = calls_of (events s) @ [StorageSnapshotClassMatch]"
  "calls_of (events (csi_step ck s)) = calls_of (events s) @ [CSI]"
  "calls_of (events (dnsResolution_step ck uid s)) = calls_of (events s) @ [DNSResolution]"
  by (simp_all add: step_defs Let_def split_def logf_facts invoke_facts invoke_failures split: option.splits)

lemma step_results:
  "results_of c (events (kubectl_step ck s)) =
     results_of c (events s) @ (if Kubectl = c then [fst (run_checkKubectl ck (world s))] else [])"
  "results_of c (events (clusterAccess_step ck s)) =
     results_of c (events s) @ (if ClusterAccess = c then [fst (run_checkClusterAccess ck (world s))] else [])"
  "results_of c (events (helmVersion_step ck s)) =
     results_of c (events s) @ (if HelmVersion = c then [fst (run_checkHelmVersion ck (world s))] else [])"
  "results_of c (events (kubernetesVersion_step ck s)) =
     results_of c (events s) @ (if KubernetesVersion = c then [fst (run_checkKubernetesVersion ck (world s))] else [])"
  "results_of c (events (kubernetesRBAC_step ck s)) =
     results_of c (events s) @ (if KubernetesRBAC = c then [fst (run_checkKubernetesRBAC ck (world s))] else [])"
  "results_of c (events (storageSnapshotClass_step ck s)) =
     results_of c (events s) @ (if StorageSnapshotClassMatch = c then [fst (run_checkStorageSnapshotClass ck (world s))] else [])"
  "results_of c (events (csi_step ck s)) =
     results_of c (events s) @ (if CSI = c then [fst (run_checkCSI ck (world s))] else [])"
  "results_of c (events (dnsResolution_step ck uid s)) =
     results_of c (events s) @ (if DNSResolution = c then [fst (run_checkDNSResolution ck uid (world s))] else [])"
  by (simp_all add: step_defs Let_def split_def logf_facts invoke_facts invoke_failures split: option.splits)

lemma step_cleanups:
  "cleanups_of (events (kubectl_step ck s)) = cleanups_of (events s)"
  "cleanups_of (events (clusterAccess_step ck s)) = cleanups_of (events s)"
  "cleanups_of (events (helmVersion_step ck s)) = cleanups_of (events s)"
  "cleanups_of (events (kubernetesVersion_step ck s)) = cleanups_of (events s)"
  "cleanups_of (events (kubernetesRBAC_step ck s)) = cleanups_of (events s)"
  "cleanups_of (events (storageSnapshotClass_step ck s)) = cleanups_of (events s)"
  "cleanups_of (events (csi_step ck s)) = cleanups_of (events s)"
  "cleanups_of (events (dnsResolution_step ck uid s)) = cleanups_of (events s)"
  "cleanups_of (events (volumeSnapshot_step ck uid s)) = cleanups_of (events s)"
  by (simp_all add: step_defs volumeSnapshot_step_def Let_def split_def logf_facts invoke_facts invoke_failures split: option.splits)

lemma step_storage_flag:
  "storageSnapshotSuccess (kubectl_step ck s) = storageSnapshotSuccess s"
  "storageSnapshotSuccess (clusterAccess_step ck s) = storageSnapshotSuccess s"
  "storageSnapshotSuccess (helmVersion_step ck s) = storageSnapshotSuccess s"
  "storageSnapshotSuccess (kubernetesVersion_step ck s) = storageSnapshotSuccess s"
  "storageSnapshotSuccess (kubernetesRBAC_step ck s) = storageSnapshotSuccess s"
  "storageSnapshotSuccess (storageSnapshotClass_step ck s) =
     (storageSnapshotSuccess s \<and> fst (run_checkStorageSnapshotClass ck (world s)) = None)"
  "storageSnapshotSuccess (csi_step ck s) = storageSnapshotSuccess s"
  "storageSnapshotSuccess (dnsResolution_step ck uid s) = storageSnapshotSuccess s"
  by (simp_all add: step_defs Let_def split_def logf_facts invoke_facts invoke_failures split: option.splits)

lemma step_status_inv:
  "status_inv s \<Longrightarrow> status_inv (kubectl_step ck s)"
  "status_inv s \<Longrightarrow> status_inv (clusterAccess_step ck s)"
  "status_inv s \<Longrightarrow> status_inv (helmVersion_step ck s)"
  "status_inv s \<Longrightarrow> status_inv (kubernetesVersion_step ck s)"
  "status_inv s \<Longrightarrow> status_inv (kubernetesRBAC_step ck s)"
  "status_inv s \<Longrightarrow> status_inv (storageSnapshotClass_step ck s)"
  "status_inv s \<Longrightarrow> status_inv (csi_step ck s)"
  "status_inv s \<Longrightarrow> status_inv (dnsResolution_step ck uid s)"
  "status_inv s \<Longrightarrow> status_inv (volumeSnapshot_step ck uid s)"
  by (simp_all add: status_inv_def step_defs volumeSnapshot_step_def Let_def split_def
        logf_facts invoke_facts invoke_failures split: option.splits)

lemma volumeSnapshot_step_calls:
  "calls_of (events (volumeSnapshot_step ck uid s)) =
     calls_of (events s) @ (if storageSnapshotSuccess s then [VolumeSnapshot] else [])"
  by (simp add: volumeSnapshot_step_def Let_def split_def logf_facts invoke_facts invoke_failures split: option.splits)

lemma volumeSnapshot_step_results:
  "results_of c (events (volumeSnapshot_step ck uid s)) =
     results_of c (events s) @
       (if storageSnapshotSuccess s \<and> VolumeSnapshot = c
        then [fst (run_checkVolumeSnapshot ck uid (world s))] else [])"
  by (simp add: volumeSnapshot_step_def Let_def split_def logf_facts invoke_facts invoke_failures split: option.splits)

lemma cleanup_step_facts:
  "calls_of (events (cleanup_step ck o_run uid s)) = calls_of (events s)"
  "results_of c (events (cleanup_step ck o_run uid s)) = results_of c (events s)"
  "failures_of (events (cleanup_step ck o_run uid s)) = failures_of (events s)"
  "preflightStatus (cleanup_step ck o_run uid s) = preflightStatus s"
  "called_of (events (cleanup_step ck o_run uid s)) = called_of (events s)"
  "world (cleanup_step ck o_run uid s) =
     (if preflightStatus s \<or> PerformCleanupOnFail o_run
      then snd (run_CleanupPreflightResources ck uid (world s)) else world s)"
  "cleanups_of (events (cleanup_step ck o_run uid s)) =
     cleanups_of (events s) @
       (if preflightStatus s \<or> PerformCleanupOnFail o_run
        then [(uid, fst (run_CleanupPreflightResources ck uid (world s)))] else [])"
  by (simp_all add: cleanup_step_def Let_def split_def logf_facts trace_append split: option.splits)

lemma PerformPreflightChecks_unfold:
  "CreateResourceNameSuffix letterBytes rd = Some (Inr uid, m) \<Longrightarrow>
   PerformPreflightChecks ck o_run letterBytes rd w =
     Some (if \<not> preflightStatus (cleanup_step ck o_run uid (after_checks ck uid w))
           then Some (Errorf ''some preflight checks failed. Check logs for more details'')
           else None,
           cleanup_step ck o_run uid (after_checks ck uid w))"
  by (simp add: PerformPreflightChecks_def after_checks_def Let_def)

lemma after_checks_calls:
  "calls_of (events (after_checks ck uid w)) =
     [Kubectl, ClusterAccess, HelmVersion, KubernetesVersion, KubernetesRBAC,
      StorageSnapshotClassMatch, CSI, DNSResolution] @
     (if results_of StorageSnapshotClassMatch (events (after_checks ck uid w)) = [None]
      then [VolumeSnapshot] else [])"
  by (simp add: after_checks_def step_calls volumeSnapshot_step_calls step_results
        volumeSnapshot_step_results step_storage_flag logf_def)

lemma after_checks_status_inv: "status_inv (after_checks ck uid w)"
  unfolding after_checks_def
  by (intro step_status_inv) (simp add: status_inv_def logf_def)

lemma after_checks_cleanups: "cleanups_of (events (after_checks ck uid w)) = []"
  by (simp add: after_checks_def step_cleanups logf_def)

lemma failed_result_is_failure:
  "Some e \<in> set (results_of c evs) \<Longrightarrow> c \<in> set (failures_of evs)"
  by (induction evs rule: failures_of.induct) (auto split: if_splits)

lemma after_checks_storage_result:
  "results_of StorageSnapshotClassMatch (events (after_checks ck uid w)) =
     [fst (run_checkStorageSnapshotClass ck (world
        (kubernetesRBAC_step ck (kubernetesVersion_step ck
         (helmVersion_step ck (clusterAccess_step ck (kubectl_step ck
           (logf InfoLevel ''Generated UID for preflight check - %s\<newline>'' [Str uid]
              \<lparr>world = w, events = [], preflightStatus = True, storageSnapshotSuccess = True\<rparr>))))))))]"
  by (simp add: after_checks_def step_results volumeSnapshot_step_results logf_def)

lemma after_checks_skip_fails:
  "VolumeSnapshot \<notin> set (calls_of (events (after_checks ck uid w))) \<Longrightarrow>
     \<not> preflightStatus (after_checks ck uid w)"
proof
  assume skip: "VolumeSnapshot \<notin> set (calls_of (events (after_checks ck uid w)))"
    and ok: "preflightStatus (after_checks ck uid w)"
  have nofail: "failures_of (events (after_checks ck uid w)) = []"
    using ok after_checks_status_inv[of ck uid w] by (simp add: status_inv_def)
  have ne: "results_of StorageSnapshotClassMatch (events (after_checks ck uid w)) \<noteq> [None]"
    using skip after_checks_calls[of ck uid w] by (simp split: if_splits)
  obtain r where r: "results_of StorageSnapshotClassMatch (events (after_checks ck uid w)) = [r]"
    by (simp add: after_checks_storage_result)
  with ne obtain e where "r = Some e" by (cases r) auto
  with r have "Some e \<in> set (results_of StorageSnapshotClassMatch (events (after_checks ck uid w)))" by simp
  then have "StorageSnapshotClassMatch \<in> set (failures_of (events (after_checks ck uid w)))"
    by (rule failed_result_is_failure)
  with nofail show False by simp
qed


lemma cleanup_step_logs_error:
  "(uid, Some e) \<in> set (cleanups_of (events (cleanup_step ck o_run uid s))) \<Longrightarrow>
   cleanups_of (events s) = [] \<Longrightarrow>
   Logged (Logf ErrorLevel ''%s Failed to cleanup preflight resources :: %s\<newline>''
             [Cross, Str (Error e)]) \<in> set (events (cleanup_step ck o_run uid s))"
  by (auto simp: cleanup_step_def Let_def split_def logf_def trace_append split: option.splits if_splits)

lemma step_ignores_cleanup:
  "kubectl_step (ck\<lparr>run_CleanupPreflightResources := f\<rparr>) s = kubectl_step ck s"
  "clusterAccess_step (ck\<lparr>run_CleanupPreflightResources := f\<rparr>) s = clusterAccess_step ck s"
  "helmVersion_step (ck\<lparr>run_CleanupPreflightResources := f\<rparr>) s = helmVersion_step ck s"
  "kubernetesVersion_step (ck\<lparr>run_CleanupPreflightResources := f\<rparr>) s = kubernetesVersion_step ck s"
  "kubernetesRBAC_step (ck\<lparr>run_CleanupPreflightResources := f\<rparr>) s = kubernetesRBAC_step ck s"
  "storageSnapshotClass_step (ck\<lparr>run_CleanupPreflightResources := f\<rparr>) s = storageSnapshotClass_step ck s"
  "csi_step (ck\<lparr>run_CleanupPreflightResources := f\<rparr>) s = csi_step ck s"
  "dnsResolution_step (ck\<lparr>run_CleanupPreflightResources := f\<rparr>) uid s = dnsResolution_step ck uid s"
  "volumeSnapshot_step (ck\<lparr>run_CleanupPreflightResources := f\<rparr>) uid s = volumeSnapshot_step ck uid s"
  by (simp_all add: step_defs volumeSnapshot_step_def)

lemma after_checks_ignores_cleanup:
  "after_checks (ck\<lparr>run_CleanupPreflightResources := f\<rparr>) uid w = after_checks ck uid w"
  by (simp add: after_checks_def step_ignores_cleanup)

lemma step_world:
  "world (kubectl_step ck s) = snd (run_checkKubectl ck (world s))"
  "world (clusterAccess_step ck s) = snd (run_checkClusterAccess ck (world s))"
  "world (helmVersion_step ck s) = snd (run_checkHelmVersion ck (world s))"
  "world (kubernetesVersion_step ck s) = snd (run_checkKubernetesVersion ck (world s))"
  "world (kubernetesRBAC_step ck s) = snd (run_checkKubernetesRBAC ck (world s))"
  "world (storageSnapshotClass_step ck s) = snd (run_checkStorageSnapshotClass ck (world s))"
  "world (csi_step ck s) = snd (run_checkCSI ck (world s))"
  "world (dnsResolution_step ck uid s) = snd (run_checkDNSResolution ck uid (world s))"
  by (simp_all add: step_defs Let_def split_def logf_facts invoke_facts split: option.splits)

lemma step_failures:
  "failures_of (events (kubectl_step ck s)) =
     failures_of (events s) @ (if fst (run_checkKubectl ck (world s)) = None then [] else [Kubectl])"
  "failures_of (events (clusterAccess_step ck s)) =
     failures_of (events s) @
       (if fst (run_checkClusterAccess ck (world s)) = None then [] else [ClusterAccess])"
  "failures_of (events (helmVersion_step ck s)) =
     failures_of (events s) @
       (if fst (run_checkHelmVersion ck (world s)) = None then [] else [HelmVersion])"
  "failures_of (events (kubernetesVersion_step ck s)) =
     failures_of (events s) @
       (if fst (run_checkKubernetesVersion ck (world s)) = None then [] else [KubernetesVersion])"
  "failures_of (events (kubernetesRBAC_step ck s)) =
     failures_of (events s) @
       (if fst (run_checkKubernetesRBAC ck (world s)) = None then [] else [KubernetesRBAC])"
  "failures_of (events (storageSnapshotClass_step ck s)) =
     failures_of (events s) @
       (if fst (run_checkStorageSnapshotClass ck (world s)) = None then []
        else [StorageSnapshotClassMatch])"
  "failures_of (events (csi_step ck s)) =
     failures_of (events s) @ (if fst (run_checkCSI ck (world s)) = None then [] else [CSI])"
  "failures_of (events (dnsResolution_step ck uid s)) =
     failures_of (events s) @
       (if fst (run_checkDNSResolution ck uid (world s)) = None then [] else [DNSResolution])"
  by (simp_all add: step_defs Let_def split_def logf_facts invoke_facts invoke_failures
        split: option.splits)

lemma step_keeps_failures:
  "c \<in> set (failures_of (events s)) \<Longrightarrow> c \<in> set (failures_of (events (kubectl_step ck s)))"
  "c \<in> set (failures_of (events s)) \<Longrightarrow> c \<in> set (failures_of (events (clusterAccess_step ck s)))"
  "c \<in> set (failures_of (events s)) \<Longrightarrow> c \<in> set (failures_of (events (helmVersion_step ck s)))"
  "c \<in> set (failures_of (events s)) \<Longrightarrow>
     c \<in> set (failures_of (events (kubernetesVersion_step ck s)))"
  "c \<in> set (failures_of (events s)) \<Longrightarrow> c \<in> set (failures_of (events (kubernetesRBAC_step ck s)))"
  "c \<in> set (failures_of (events s)) \<Longrightarrow>
     c \<in> set (failures_of (events (storageSnapshotClass_step ck s)))"
  "c \<in> set (failures_of (events s)) \<Longrightarrow> c \<in> set (failures_of (events (csi_step ck s)))"
  "c \<in> set (failures_of (events s)) \<Longrightarrow>
     c \<in> set (failures_of (events (dnsResolution_step ck uid s)))"
  "c \<in> set (failures_of (events s)) \<Longrightarrow>
     c \<in> set (failures_of (events (volumeSnapshot_step ck uid s)))"
  by (simp_all add: step_failures volumeSnapshot_step_def Let_def split_def logf_facts
        invoke_failures split: option.splits)

lemma step_called:
  "called_of (events (kubectl_step ck s)) =
     called_of (events s) @ [(Kubectl, fst (run_checkKubectl ck (world s)))]"
  "called_of (events (clusterAccess_step ck s)) =
     called_of (events s) @ [(ClusterAccess, fst (run_checkClusterAccess ck (world s)))]"
  "called_of (events (helmVersion_step ck s)) =
     called_of (events s) @ [(HelmVersion, fst (run_checkHelmVersion ck (world s)))]"
  "called_of (events (kubernetesVersion_step ck s)) =
     called_of (events s) @ [(KubernetesVersion, fst (run_checkKubernetesVersion ck (world s)))]"
  "called_of (events (kubernetesRBAC_step ck s)) =
     called_of (events s) @ [(KubernetesRBAC, fst (run_checkKubernetesRBAC ck (world s)))]"
  "called_of (events (storageSnapshotClass_step ck s)) =
     called_of (events s) @
       [(StorageSnapshotClassMatch, fst (run_checkStorageSnapshotClass ck (world s)))]"
  "called_of (events (csi_step ck s)) =
     called_of (events s) @ [(CSI, fst (run_checkCSI ck (world s)))]"
  "called_of (events (dnsResolution_step ck uid s)) =
     called_of (events s) @ [(DNSResolution, fst (run_checkDNSResolution ck uid (world s)))]"
  by (simp_all add: step_defs Let_def split_def logf_facts invoke_facts split: option.splits)

lemma step_status:
  "preflightStatus (kubectl_step ck s) =
     (preflightStatus s \<and> fst (run_checkKubectl ck (world s)) = None)"
  "preflightStatus (clusterAccess_step ck s) =
     (preflightStatus s \<and> fst (run_checkClusterAccess ck (world s)) = None)"
  "preflightStatus (helmVersion_step ck s) =
     (preflightStatus s \<and> fst (run_checkHelmVersion ck (world s)) = None)"
  "preflightStatus (kubernetesVersion_step ck s) =
     (preflightStatus s \<and> fst (run_checkKubernetesVersion ck (world s)) = None)"
  "preflightStatus (kubernetesRBAC_step ck s) =
     (preflightStatus s \<and> fst (run_checkKubernetesRBAC ck (world s)) = None)"
  "preflightStatus (storageSnapshotClass_step ck s) =
     (preflightStatus s \<and> fst (run_checkStorageSnapshotClass ck (world s)) = None)"
  "preflightStatus (csi_step ck s) =
     (preflightStatus s \<and> fst (run_checkCSI ck (world s)) = None)"
  "preflightStatus (dnsResolution_step ck uid s) =
     (preflightStatus s \<and> fst (run_checkDNSResolution ck uid (world s)) = None)"
  by (simp_all add: step_defs Let_def split_def logf_facts invoke_facts split: option.splits)

lemma volumeSnapshot_step_run:
  "called_of (events (volumeSnapshot_step ck uid s)) =
     called_of (events s) @
       (if storageSnapshotSuccess s
        then [(VolumeSnapshot, fst (run_checkVolumeSnapshot ck uid (world s)))] else [])"
  "world (volumeSnapshot_step ck uid s) =
     (if storageSnapshotSuccess s then snd (run_checkVolumeSnapshot ck uid (world s))
      else world s)"
  "preflightStatus (volumeSnapshot_step ck uid s) =
     (preflightStatus s \<and>
      (if storageSnapshotSuccess s then fst (run_checkVolumeSnapshot ck uid (world s)) = None
       else True))"
  by (simp_all add: volumeSnapshot_step_def Let_def split_def logf_facts invoke_facts
        split: option.splits)

text \<open>The run of the checks, written out on the results and worlds of the calls.\<close>

lemma after_checks_explicit:
  assumes "run_checkKubectl ck w = (r1, w1)"
    and "run_checkClusterAccess ck w1 = (r2, w2)"
    and "run_checkHelmVersion ck w2 = (r3, w3)"
    and "run_checkKubernetesVersion ck w3 = (r4, w4)"
    and "run_checkKubernetesRBAC ck w4 = (r5, w5)"
    and "run_checkStorageSnapshotClass ck w5 = (r6, w6)"
    and "run_checkCSI ck w6 = (r7, w7)"
    and "run_checkDNSResolution ck uid w7 = (r8, w8)"
    and "run_checkVolumeSnapshot ck uid w8 = (r9, w9)"
  shows "called_of (events (after_checks ck uid w)) =
           [(Kubectl, r1), (ClusterAccess, r2), (HelmVersion, r3), (KubernetesVersion, r4),
            (KubernetesRBAC, r5), (StorageSnapshotClassMatch, r6), (CSI, r7),
            (DNSResolution, r8)] @ (if r6 = None then [(VolumeSnapshot, r9)] else [])"
    and "world (after_checks ck uid w) = (if r6 = None then w9 else w8)"
    and "preflightStatus (after_checks ck uid w) =
           (r1 = None \<and> r2 = None \<and> r3 = None \<and> r4 = None \<and> r5 = None \<and> r6 = None \<and>
            r7 = None \<and> r8 = None \<and> r9 = None)"
proof -
  let ?s0 = "logf InfoLevel ''Generated UID for preflight check - %s\<newline>'' [Str uid]
              \<lparr>world = w, events = [], preflightStatus = True, storageSnapshotSuccess = True\<rparr>"
  let ?s1 = "kubectl_step ck ?s0"
  let ?s2 = "clusterAccess_step ck ?s1"
  let ?s3 = "helmVersion_step ck ?s2"
  let ?s4 = "kubernetesVersion_step ck ?s3"
  let ?s5 = "kubernetesRBAC_step ck ?s4"
  let ?s6 = "storageSnapshotClass_step ck ?s5"
  let ?s7 = "csi_step ck ?s6"
  let ?s8 = "dnsResolution_step ck uid ?s7"
  have w0: "world ?s0 = w" and c0: "called_of (events ?s0) = []"
    and p0: "preflightStatus ?s0" and f0: "storageSnapshotSuccess ?s0"
    by (simp_all add: logf_facts)
  have w1: "world ?s1 = w1" and c1: "called_of (events ?s1) = [(Kubectl, r1)]"
    and p1: "preflightStatus ?s1 = (r1 = None)" and f1: "storageSnapshotSuccess ?s1"
    using assms(1) w0 c0 p0 f0
    by (simp_all only: step_world step_called step_status step_storage_flag) simp_all
  have w2: "world ?s2 = w2" and c2: "called_of (events ?s2) = [(Kubectl, r1), (ClusterAccess, r2)]"
    and p2: "preflightStatus ?s2 = (r1 = None \<and> r2 = None)" and f2: "storageSnapshotSuccess ?s2"
    using assms(2) w1 c1 p1 f1
    by (simp_all only: step_world step_called step_status step_storage_flag) simp_all
  have w3: "world ?s3 = w3"
    and c3: "called_of (events ?s3) = [(Kubectl, r1), (ClusterAccess, r2), (HelmVersion, r3)]"
    and p3: "preflightStatus ?s3 = (r1 = None \<and> r2 = None \<and> r3 = None)"
    and f3: "storageSnapshotSuccess ?s3"
    using assms(3) w2 c2 p2 f2
    by (simp_all only: step_world step_called step_status step_storage_flag) simp_all
  have w4: "world ?s4 = w4"
    and c4: "called_of (events ?s4) =
               [(Kubectl, r1), (ClusterAccess, r2), (HelmVersion, r3), (KubernetesVersion, r4)]"
    and p4: "preflightStatus ?s4 = (r1 = None \<and> r2 = None \<and> r3 = None \<and> r4 = None)"
    and f4: "storageSnapshotSuccess ?s4"
    using assms(4) w3 c3 p3 f3
    by (simp_all only: step_world step_called step_status step_storage_flag) simp_all
  have w5: "world ?s5 = w5"
    and c5: "called_of (events ?s5) =
               [(Kubectl, r1), (ClusterAccess, r2), (HelmVersion, r3), (KubernetesVersion, r4),
                (KubernetesRBAC, r5)]"
    and p5: "preflightStatus ?s5 =
               (r1 = None \<and> r2 = None \<and> r3 = None \<and> r4 = None \<and> r5 = None)"
    and f5: "storageSnapshotSuccess ?s5"
    using assms(5) w4 c4 p4 f4
    by (simp_all only: step_world step_called step_status step_storage_flag) simp_all
  have w6: "world ?s6 = w6"
    and c6: "called_of (events ?s6) =
               [(Kubectl, r1), (ClusterAccess, r2), (HelmVersion, r3), (KubernetesVersion, r4),
                (KubernetesRBAC, r5), (StorageSnapshotClassMatch, r6)]"
    and p6: "preflightStatus ?s6 =
               (r1 = None \<and> r2 = None \<and> r3 = None \<and> r4 = None \<and> r5 = None \<and> r6 = None)"
    and f6: "storageSnapshotSuccess ?s6 = (r6 = None)"
    using assms(6) w5 c5 p5 f5
    by (simp_all only: step_world step_called step_status step_storage_flag) simp_all
  have w7: "world ?s7 = w7"
    and c7: "called_of (events ?s7) =
               [(Kubectl, r1), (ClusterAccess, r2), (HelmVersion, r3), (KubernetesVersion, r4),
                (KubernetesRBAC, r5), (StorageSnapshotClassMatch, r6), (CSI, r7)]"
    and p7: "preflightStatus ?s7 =
               (r1 = None \<and> r2 = None \<and> r3 = None \<and> r4 = None \<and> r5 = None \<and> r6 = None \<and>
                r7 = None)"
    and f7: "storageSnapshotSuccess ?s7 = (r6 = None)"
    using assms(7) w6 c6 p6 f6
    by (simp_all only: step_world step_called step_status step_storage_flag) simp_all
  have w8: "world ?s8 = w8"
    and c8: "called_of (events ?s8) =
               [(Kubectl, r1), (ClusterAccess, r2), (HelmVersion, r3), (KubernetesVersion, r4),
                (KubernetesRBAC, r5), (StorageSnapshotClassMatch, r6), (CSI, r7),
                (DNSResolution, r8)]"
    and p8: "preflightStatus ?s8 =
               (r1 = None \<and> r2 = None \<and> r3 = None \<and> r4 = None \<and> r5 = None \<and> r6 = None \<and>
                r7 = None \<and> r8 = None)"
    and f8: "storageSnapshotSuccess ?s8 = (r6 = None)"
    using assms(8) w7 c7 p7 f7
    by (simp_all only: step_world step_called step_status step_storage_flag) simp_all
  have a: "after_checks ck uid w = volumeSnapshot_step ck uid ?s8"
    by (simp add: after_checks_def)
  show "called_of (events (after_checks ck uid w)) =
           [(Kubectl, r1), (ClusterAccess, r2), (HelmVersion, r3), (KubernetesVersion, r4),
            (KubernetesRBAC, r5), (StorageSnapshotClassMatch, r6), (CSI, r7),
            (DNSResolution, r8)] @ (if r6 = None then [(VolumeSnapshot, r9)] else [])"
    unfolding a using assms(9) w8 c8 f8 by (simp only: volumeSnapshot_step_run) simp
  show "world (after_checks ck uid w) = (if r6 = None then w9 else w8)"
    unfolding a using assms(9) w8 f8 by (simp only: volumeSnapshot_step_run) simp
  show "preflightStatus (after_checks ck uid w) =
           (r1 = None \<and> r2 = None \<and> r3 = None \<and> r4 = None \<and> r5 = None \<and> r6 = None \<and>
            r7 = None \<and> r8 = None \<and> r9 = None)"
    unfolding a using assms(9) w8 p8 f8 by (simp only: volumeSnapshot_step_run) auto
qed

text \<open>
  Claim C3. In every run of \<^verbatim>\<open>PerformPreflightChecks\<close> in which the suffix is
  generated, whatever the checks return, each of the checks of kubectl, cluster access,
  Helm version, Kubernetes version, RBAC, storage and snapshot class, CSI and DNS is
  applied exactly once, in this order, each to the world its predecessor has left, and
  recorded with the error it returned; the check of volume snapshot and restore is
  applied, once, to the world left by the DNS check, if and only if the check of
  storage and snapshot class returned \<^verbatim>\<open>nil\<close>, and when it is not applied the run
  has failed. The world the run ends in is the one left by the last check applied, or
  by the cleanup applied to it.
\<close>

theorem PerformPreflightChecks_executes_checks:
  assumes uid: "CreateResourceNameSuffix letterBytes rd = Some (Inr uid, m)"
    and k1: "run_checkKubectl ck w = (r1, w1)"
    and k2: "run_checkClusterAccess ck w1 = (r2, w2)"
    and k3: "run_checkHelmVersion ck w2 = (r3, w3)"
    and k4: "run_checkKubernetesVersion ck w3 = (r4, w4)"
    and k5: "run_checkKubernetesRBAC ck w4 = (r5, w5)"
    and k6: "run_checkStorageSnapshotClass ck w5 = (r6, w6)"
    and k7: "run_checkCSI ck w6 = (r7, w7)"
    and k8: "run_checkDNSResolution ck uid w7 = (r8, w8)"
    and k9: "run_checkVolumeSnapshot ck uid w8 = (r9, w9)"
  shows "\<exists>verdict s.
      PerformPreflightChecks ck o_run letterBytes rd w = Some (verdict, s) \<and>
      called_of (events s) =
        [(Kubectl, r1), (ClusterAccess, r2), (HelmVersion, r3), (KubernetesVersion, r4),
         (KubernetesRBAC, r5), (StorageSnapshotClassMatch, r6), (CSI, r7),
         (DNSResolution, r8)] @ (if r6 = None then [(VolumeSnapshot, r9)] else []) \<and>
      world s =
        (if preflightStatus s \<or> PerformCleanupOnFail o_run
         then snd (run_CleanupPreflightResources ck uid (if r6 = None then w9 else w8))
         else (if r6 = None then w9 else w8)) \<and>
      preflightStatus s =
        (r1 = None \<and> r2 = None \<and> r3 = None \<and> r4 = None \<and> r5 = None \<and> r6 = None \<and>
         r7 = None \<and> r8 = None \<and> r9 = None) \<and>
      (verdict = None \<longleftrightarrow> preflightStatus s) \<and>
      (\<forall>c \<in> {Kubectl, ClusterAccess, HelmVersion, KubernetesVersion, KubernetesRBAC,
               StorageSnapshotClassMatch, CSI, DNSResolution}.
          count_list (calls_of (events s)) c = 1) \<and>
      (count_list (calls_of (events s)) VolumeSnapshot = 1 \<longleftrightarrow> r6 = None) \<and>
      (r6 \<noteq> None \<longrightarrow>
         count_list (calls_of (events s)) VolumeSnapshot = 0 \<and> verdict \<noteq> None \<and>
         \<not> preflightStatus s)"
proof -
  let ?a = "after_checks ck uid w"
  let ?s = "cleanup_step ck o_run uid ?a"
  let ?v = "if \<not> preflightStatus ?s
            then Some (Errorf ''some preflight checks failed. Check logs for more details'')
            else None"
  note ex = after_checks_explicit [OF k1 k2 k3 k4 k5 k6 k7 k8 k9]
  have ppc: "PerformPreflightChecks ck o_run letterBytes rd w = Some (?v, ?s)"
    by (rule PerformPreflightChecks_unfold [OF uid])
  have called: "called_of (events ?s) =
        [(Kubectl, r1), (ClusterAccess, r2), (HelmVersion, r3), (KubernetesVersion, r4),
         (KubernetesRBAC, r5), (StorageSnapshotClassMatch, r6), (CSI, r7),
         (DNSResolution, r8)] @ (if r6 = None then [(VolumeSnapshot, r9)] else [])"
    using ex(1) by (simp only: cleanup_step_facts)
  have st: "preflightStatus ?s =
        (r1 = None \<and> r2 = None \<and> r3 = None \<and> r4 = None \<and> r5 = None \<and> r6 = None \<and>
         r7 = None \<and> r8 = None \<and> r9 = None)"
    using ex(3) by (simp only: cleanup_step_facts)
  have wo: "world ?s =
        (if preflightStatus ?s \<or> PerformCleanupOnFail o_run
         then snd (run_CleanupPreflightResources ck uid (if r6 = None then w9 else w8))
         else (if r6 = None then w9 else w8))"
    using ex(2) by (simp only: cleanup_step_facts)
  have calls: "calls_of (events ?s) =
        [Kubectl, ClusterAccess, HelmVersion, KubernetesVersion, KubernetesRBAC,
         StorageSnapshotClassMatch, CSI, DNSResolution] @
        (if r6 = None then [VolumeSnapshot] else [])"
    by (simp add: calls_of_called called)
  have once: "\<forall>c \<in> {Kubectl, ClusterAccess, HelmVersion, KubernetesVersion, KubernetesRBAC,
               StorageSnapshotClassMatch, CSI, DNSResolution}.
          count_list (calls_of (events ?s)) c = 1"
    by (simp add: calls)
  have vs: "count_list (calls_of (events ?s)) VolumeSnapshot = 1 \<longleftrightarrow> r6 = None"
    by (simp add: calls)
  have vs0: "r6 \<noteq> None \<longrightarrow> count_list (calls_of (events ?s)) VolumeSnapshot = 0"
    by (simp add: calls)
  have v: "?v = None \<longleftrightarrow> preflightStatus ?s" by simp
  have skip: "r6 \<noteq> None \<longrightarrow> ?v \<noteq> None \<and> \<not> preflightStatus ?s"
    using st by simp
  have last: "r6 \<noteq> None \<longrightarrow>
         count_list (calls_of (events ?s)) VolumeSnapshot = 0 \<and> ?v \<noteq> None \<and>
         \<not> preflightStatus ?s"
    using vs0 skip by blast
  show ?thesis
    apply (rule exI[of _ ?v], rule exI[of _ ?s])
    apply (intro conjI)
           apply (rule ppc)
          apply (rule called)
         apply (rule wo)
        apply (rule st)
       apply (rule v)
      apply (rule once)
     apply (rule vs)
    apply (rule last)
    done
qed

theorem PerformPreflightChecks_executes_checks_witness:
  "CreateResourceNameSuffix ''abcdefghijklmnopqrstuvwxyz'' example_reader = Some (Inr ''dkrygn'', 7) \<and>
   (\<exists>s. PerformPreflightChecks
          (example_checks (Some (Errorf ''not found storageclass - standard on cluster'')) None)
          (example_options ''standard'' []) ''abcdefghijklmnopqrstuvwxyz'' example_reader [] =
            Some (Some (Errorf ''some preflight checks failed. Check logs for more details''), s) \<and>
        called_of (events s) =
          [(Kubectl, None), (ClusterAccess, None), (HelmVersion, None), (KubernetesVersion, None),
           (KubernetesRBAC, None),
           (StorageSnapshotClassMatch,
            Some (Errorf ''not found storageclass - standard on cluster'')),
           (CSI, None), (DNSResolution, None)] \<and>
        world s = [])"
proof -
  let ?ck = "example_checks (Some (Errorf ''not found storageclass - standard on cluster'')) None"
  let ?o = "example_options ''standard'' []"
  have uid: "CreateResourceNameSuffix ''abcdefghijklmnopqrstuvwxyz'' example_reader = Some (Inr ''dkrygn'', 7)"
    by code_simp
  have k: "run_checkKubectl ?ck [] = (None, [])"
    "run_checkClusterAccess ?ck [] = (None, [])"
    "run_checkHelmVersion ?ck [] = (None, [])"
    "run_checkKubernetesVersion ?ck [] = (None, [])"
    "run_checkKubernetesRBAC ?ck [] = (None, [])"
    "run_checkStorageSnapshotClass ?ck [] =
       (Some (Errorf ''not found storageclass - standard on cluster''), [])"
    "run_checkCSI ?ck [] = (None, [])"
    "run_checkDNSResolution ?ck ''dkrygn'' [] = (None, [])"
    "run_checkVolumeSnapshot ?ck ''dkrygn'' [] = (None, [''source-pvc-dkrygn''])"
    by (simp_all add: example_checks_def)
  have cl: "snd (run_CleanupPreflightResources ?ck ''dkrygn'' []) = []"
    by (simp add: example_checks_def)
  have fl: "PerformCleanupOnFail ?o" by (simp add: example_options_def)
  from PerformPreflightChecks_executes_checks
         [OF uid k(1) k(2) k(3) k(4) k(5) k(6) k(7) k(8) k(9), of ?o]
  obtain verdict s where r:
    "PerformPreflightChecks ?ck ?o ''abcdefghijklmnopqrstuvwxyz'' example_reader [] = Some (verdict, s)"
    "called_of (events s) =
          [(Kubectl, None), (ClusterAccess, None), (HelmVersion, None), (KubernetesVersion, None),
           (KubernetesRBAC, None),
           (StorageSnapshotClassMatch,
            Some (Errorf ''not found storageclass - standard on cluster'')),
           (CSI, None), (DNSResolution, None)]"
    "world s = []" "verdict \<noteq> None"
    using cl fl by auto
  have "verdict = Some (Errorf ''some preflight checks failed. Check logs for more details'')"
    using r(1,4) PerformPreflightChecks_unfold [OF uid, of ?ck ?o "[]"]
    by (auto split: if_splits)
  with r uid show ?thesis by blast
qed

text \<open>
  Claim C4, amended. In every run of \<^verbatim>\<open>PerformPreflightChecks\<close> in which the suffix
  is generated, the cleanup is called, once, if and only if no check failed or
  \<^verbatim>\<open>PerformCleanupOnFail\<close> is set; the run returns an error exactly when some check
  failed, the same whatever the cleanup does; an error of the cleanup, which is called
  with the suffix of the run, is logged. When the cleanup is called it is applied to the
  world the checks have left, its error is the one recorded, and the world it leaves is
  the one the run ends in; when it is not called, the run ends in the world the checks
  have left.
\<close>

theorem PerformPreflightChecks_cleanup_and_verdict:
  assumes uid: "CreateResourceNameSuffix letterBytes rd = Some (Inr uid, m)"
  shows "\<exists>verdict s.
      PerformPreflightChecks ck o_run letterBytes rd w = Some (verdict, s) \<and>
      length (cleanups_of (events s)) =
        (if failures_of (events s) = [] \<or> PerformCleanupOnFail o_run then 1 else 0) \<and>
      (verdict \<noteq> None \<longleftrightarrow> failures_of (events s) \<noteq> []) \<and>
      (\<forall>f. map_option fst
              (PerformPreflightChecks (ck\<lparr>run_CleanupPreflightResources := f\<rparr>)
                 o_run letterBytes rd w) = Some verdict) \<and>
      (\<forall>u e. (u, Some e) \<in> set (cleanups_of (events s)) \<longrightarrow>
          u = uid \<and>
          Logged (Logf ErrorLevel ''%s Failed to cleanup preflight resources :: %s\<newline>''
                    [Cross, Str (Error e)]) \<in> set (events s)) \<and>
      cleanups_of (events s) =
        (if failures_of (events s) = [] \<or> PerformCleanupOnFail o_run
         then [(uid, fst (run_CleanupPreflightResources ck uid (world (after_checks ck uid w))))]
         else []) \<and>
      world s =
        (if failures_of (events s) = [] \<or> PerformCleanupOnFail o_run
         then snd (run_CleanupPreflightResources ck uid (world (after_checks ck uid w)))
         else world (after_checks ck uid w))"
proof -
  let ?a = "after_checks ck uid w"
  let ?s = "cleanup_step ck o_run uid ?a"
  let ?v = "if \<not> preflightStatus ?s
            then Some (Errorf ''some preflight checks failed. Check logs for more details'')
            else None"
  have ppc: "\<And>ck'. PerformPreflightChecks ck' o_run letterBytes rd w =
      Some (if \<not> preflightStatus (after_checks ck' uid w)
            then Some (Errorf ''some preflight checks failed. Check logs for more details'')
            else None,
            cleanup_step ck' o_run uid (after_checks ck' uid w))"
    by (simp add: PerformPreflightChecks_unfold [OF uid] cleanup_step_facts)
  have inv: "preflightStatus ?a \<longleftrightarrow> failures_of (events ?a) = []"
    using after_checks_status_inv[of ck uid w] by (simp add: status_inv_def)
  have c0: "PerformPreflightChecks ck o_run letterBytes rd w = Some (?v, ?s)"
    by (rule PerformPreflightChecks_unfold [OF uid])
  have c1: "length (cleanups_of (events ?s)) =
           (if failures_of (events ?s) = [] \<or> PerformCleanupOnFail o_run then 1 else 0)"
    using inv by (simp add: cleanup_step_facts after_checks_cleanups)
  have c2: "?v \<noteq> None \<longleftrightarrow> failures_of (events ?s) \<noteq> []"
    using inv by (simp add: cleanup_step_facts)
  have c3: "\<forall>f. map_option fst
              (PerformPreflightChecks (ck\<lparr>run_CleanupPreflightResources := f\<rparr>)
                 o_run letterBytes rd w) = Some ?v"
    by (simp add: ppc after_checks_ignores_cleanup cleanup_step_facts)
  have c4: "\<forall>u e. (u, Some e) \<in> set (cleanups_of (events ?s)) \<longrightarrow>
             u = uid \<and>
             Logged (Logf ErrorLevel ''%s Failed to cleanup preflight resources :: %s\<newline>''
                       [Cross, Str (Error e)]) \<in> set (events ?s)"
  proof (intro allI impI)
    fix u e assume m: "(u, Some e) \<in> set (cleanups_of (events ?s))"
    then have u: "u = uid"
      by (simp add: cleanup_step_facts after_checks_cleanups split: if_splits)
    with m have "(uid, Some e) \<in> set (cleanups_of (events ?s))" by simp
    then have "Logged (Logf ErrorLevel ''%s Failed to cleanup preflight resources :: %s\<newline>''
                       [Cross, Str (Error e)]) \<in> set (events ?s)"
      using after_checks_cleanups[of ck uid w] by (rule cleanup_step_logs_error)
    with u show "u = uid \<and>
             Logged (Logf ErrorLevel ''%s Failed to cleanup preflight resources :: %s\<newline>''
                       [Cross, Str (Error e)]) \<in> set (events ?s)" by simp
  qed
  have c5: "cleanups_of (events ?s) =
        (if failures_of (events ?s) = [] \<or> PerformCleanupOnFail o_run
         then [(uid, fst (run_CleanupPreflightResources ck uid (world ?a)))]
         else [])"
    using inv by (simp add: cleanup_step_facts after_checks_cleanups)
  have c6: "world ?s =
        (if failures_of (events ?s) = [] \<or> PerformCleanupOnFail o_run
         then snd (run_CleanupPreflightResources ck uid (world ?a))
         else world ?a)"
    using inv by (simp add: cleanup_step_facts)
  show ?thesis
    using c0 c1 c2 c3 c4 c5 c6 by blast
qed

theorem PerformPreflightChecks_cleanup_and_verdict_witness:
  "CreateResourceNameSuffix ''abcdefghijklmnopqrstuvwxyz'' example_reader = Some (Inr ''dkrygn'', 7) \<and>
   (\<exists>s. PerformPreflightChecks (example_checks None (Some (Failure ''context deadline exceeded'')))
          (example_options ''standard'' []) ''abcdefghijklmnopqrstuvwxyz'' example_reader [] = Some (None, s) \<and>
        cleanups_of (events s) = [(''dkrygn'', Some (Failure ''context deadline exceeded''))] \<and>
        world s = [''source-pvc-dkrygn''])"
proof -
  let ?ck = "example_checks None (Some (Failure ''context deadline exceeded''))"
  let ?o = "example_options ''standard'' []"
  have uid: "CreateResourceNameSuffix ''abcdefghijklmnopqrstuvwxyz'' example_reader = Some (Inr ''dkrygn'', 7)"
    by code_simp
  have k: "run_checkKubectl ?ck [] = (None, [])"
    "run_checkClusterAccess ?ck [] = (None, [])"
    "run_checkHelmVersion ?ck [] = (None, [])"
    "run_checkKubernetesVersion ?ck [] = (None, [])"
    "run_checkKubernetesRBAC ?ck [] = (None, [])"
    "run_checkStorageSnapshotClass ?ck [] = (None, [])"
    "run_checkCSI ?ck [] = (None, [])"
    "run_checkDNSResolution ?ck ''dkrygn'' [] = (None, [])"
    "run_checkVolumeSnapshot ?ck ''dkrygn'' [] = (None, [''source-pvc-dkrygn''])"
    by (simp_all add: example_checks_def)
  note ex = after_checks_explicit [OF k(1) k(2) k(3) k(4) k(5) k(6) k(7) k(8) k(9)]
  have wa: "world (after_checks ?ck ''dkrygn'' []) = [''source-pvc-dkrygn'']"
    using ex(2) by simp
  have ok: "preflightStatus (after_checks ?ck ''dkrygn'' [])"
    using ex(3) by simp
  have nofail: "failures_of (events (after_checks ?ck ''dkrygn'' [])) = []"
    using ok after_checks_status_inv[of ?ck "''dkrygn''" "[]"] by (simp add: status_inv_def)
  have cl: "run_CleanupPreflightResources ?ck ''dkrygn'' [''source-pvc-dkrygn''] =
              (Some (Failure ''context deadline exceeded''), [''source-pvc-dkrygn''])"
    by (simp add: example_checks_def)
  from PerformPreflightChecks_cleanup_and_verdict [OF uid, of ?ck ?o "[]"]
  obtain verdict s where r:
    "PerformPreflightChecks ?ck ?o ''abcdefghijklmnopqrstuvwxyz'' example_reader [] = Some (verdict, s)"
    "verdict \<noteq> None \<longleftrightarrow> failures_of (events s) \<noteq> []"
    "cleanups_of (events s) =
        (if failures_of (events s) = [] \<or> PerformCleanupOnFail ?o
         then [(''dkrygn'', fst (run_CleanupPreflightResources ?ck ''dkrygn''
                  (world (after_checks ?ck ''dkrygn'' []))))]
         else [])"
    "world s =
        (if failures_of (events s) = [] \<or> PerformCleanupOnFail ?o
         then snd (run_CleanupPreflightResources ?ck ''dkrygn''
                  (world (after_checks ?ck ''dkrygn'' [])))
         else world (after_checks ?ck ''dkrygn'' []))"
    by blast
  have s: "s = cleanup_step ?ck ?o ''dkrygn'' (after_checks ?ck ''dkrygn'' [])"
    using r(1) PerformPreflightChecks_unfold [OF uid, of ?ck ?o "[]"] by simp
  have nf: "failures_of (events s) = []" using nofail by (simp add: s cleanup_step_facts)
  have fl: "PerformCleanupOnFail ?o" by (simp add: example_options_def)
  have "verdict = None" using r(2) nf by simp
  with r nf fl wa cl uid show ?thesis by simp
qed

text \<open>
  When the random source fails, the run returns its error although no check has failed,
  and the cleanup is not called although no check has failed and
  \<^verbatim>\<open>PerformCleanupOnFail\<close> is set.
\<close>

theorem PerformPreflightChecks_suffix_failure_counterexample:
  "map_option fst (PerformPreflightChecks (example_checks None None)
      (example_options ''standard'' []) ''abcdefghijklmnopqrstuvwxyz'' failing_reader []) =
     Some (Some (Failure ''entropy source unavailable'')) \<and>
   map_option (failures_of \<circ> events \<circ> snd) (PerformPreflightChecks (example_checks None None)
      (example_options ''standard'' []) ''abcdefghijklmnopqrstuvwxyz'' failing_reader []) = Some [] \<and>
   map_option (cleanups_of \<circ> events \<circ> snd) (PerformPreflightChecks (example_checks None None)
      (example_options ''standard'' []) ''abcdefghijklmnopqrstuvwxyz'' failing_reader []) = Some [] \<and>
   PerformCleanupOnFail (example_options ''standard'' [])"
proof -
  have "CreateResourceNameSuffix ''abcdefghijklmnopqrstuvwxyz'' failing_reader =
          Some (Inl (Failure ''entropy source unavailable''), 1)"
    by code_simp
  then show ?thesis
    by (simp add: PerformPreflightChecks_def logf_def example_options_def)
qed

text \<open>
  What the defect of the Helm check does to a run of the checks of this theory: on an
  OpenShift cluster whose host cannot tell a version of \<^verbatim>\<open>helm\<close>, the run fails.
\<close>

lemma openshift_run_fails_without_helm:
  assumes uid: "CreateResourceNameSuffix letterBytes rd = Some (Inr uid, m)"
    and ocp: "CheckIsOpenshift (host (site w))"
    and nohelm: "GetHelmVersion (host (site w)) (HelmBinaryName (host (site w))) = Inl e"
  shows "map_option fst
           (PerformPreflightChecks (preflight_checks o_run vs cl) o_run letterBytes rd w) =
           Some (Some (Errorf ''some preflight checks failed. Check logs for more details''))"
proof -
  let ?ck = "preflight_checks o_run vs cl"
  let ?s0 = "logf InfoLevel ''Generated UID for preflight check - %s\<newline>'' [Str uid]
              \<lparr>world = w, events = [], preflightStatus = True, storageSnapshotSuccess = True\<rparr>"
  let ?s2 = "clusterAccess_step ?ck (kubectl_step ?ck ?s0)"
  have w2: "world ?s2 = w"
    by (simp add: step_world logf_facts preflight_checks_def)
  have hv: "run_checkHelmVersion ?ck w' =
              (checkHelmVersion (host (site w')) (HelmBinaryName (host (site w'))), w')" for w'
    by (simp add: preflight_checks_def)
  have "checkHelmVersion (host (site w)) (HelmBinaryName (host (site w))) = Some e"
    using ocp nohelm by (simp add: checkHelmVersion_def validateHelmBinary_def)
  then have helm: "fst (run_checkHelmVersion ?ck (world ?s2)) = Some e"
    unfolding w2 hv by simp
  have "failures_of (events (helmVersion_step ?ck ?s2)) =
          failures_of (events ?s2) @ [HelmVersion]"
    by (simp only: step_failures(3) helm) simp
  then have "HelmVersion \<in> set (failures_of (events (helmVersion_step ?ck ?s2)))"
    by simp
  then have "HelmVersion \<in> set (failures_of (events (after_checks ?ck uid w)))"
    unfolding after_checks_def
    by (intro step_keeps_failures(9) step_keeps_failures(8) step_keeps_failures(7)
          step_keeps_failures(6) step_keeps_failures(5) step_keeps_failures(4))
  then have "\<not> preflightStatus (after_checks ?ck uid w)"
    using after_checks_status_inv[of ?ck uid w] by (auto simp: status_inv_def)
  then show ?thesis
    by (simp add: PerformPreflightChecks_unfold[OF uid] cleanup_step_facts)
qed

text \<open>
  Claim C7. With an empty storage class, or with an image pull secret and no local
  registry, the run command ends in a fatal error, and
  \<^verbatim>\<open>PerformPreflightChecks\<close> is not called: no check is run and the world is left as
  it was. When the steps before the validation succeed, the fatal error is the one of
  the configuration.
\<close>

theorem RunE_rejects_invalid_configuration:
  assumes "StorageClass o_run = [] \<or> (ImagePullSecret o_run \<noteq> [] \<and> LocalRegistry o_run = [])"
  shows "(\<exists>x. RunE env ck o_run letterBytes rd w = Some (x, w, []) \<and> is_fatal x)
       \<and> (managePreflightInputs env = None \<and> setupLogger env = None \<and> InitKubeEnv env = None \<and>
          OpenFile env = None \<and> validateResourceRequirementsField env = None \<longrightarrow>
          RunE env ck o_run letterBytes rd w =
            Some (Fatalf (if StorageClass o_run = []
                          then ''storage-class is required, cannot be empty''
                          else ''Cannot give image pull secret if local registry is not provided.\<newline>'' @
                               ''Use --local-registry flag to provide local registry'') [],
                  w, []))"
  using assms by (auto simp: RunE_def split: option.splits)

theorem RunE_rejects_invalid_configuration_witness:
  "StorageClass (example_options [] []) = [] \<and>
   RunE example_cmd_env (example_checks None None) (example_options [] [])
        ''abcdefghijklmnopqrstuvwxyz'' example_reader [''left-over-pod''] =
     Some (Fatalf ''storage-class is required, cannot be empty'' [], [''left-over-pod''], [])"
proof -
  have h: "StorageClass (example_options [] []) = [] \<or>
           (ImagePullSecret (example_options [] []) \<noteq> [] \<and> LocalRegistry (example_options [] []) = [])"
    by (simp add: example_options_def)
  have env: "managePreflightInputs example_cmd_env = None \<and> setupLogger example_cmd_env = None \<and>
             InitKubeEnv example_cmd_env = None \<and> OpenFile example_cmd_env = None \<and>
             validateResourceRequirementsField example_cmd_env = None"
    by (simp add: example_cmd_env_def)
  have sc: "StorageClass (example_options [] []) = []" by (simp add: example_options_def)
  from RunE_rejects_invalid_configuration [OF h, of example_cmd_env "example_checks None None"
         "''abcdefghijklmnopqrstuvwxyz''" example_reader "[''left-over-pod'']"] env sc
  show ?thesis by simp
qed

end
